theory Spec2Isabelle
  imports Complex_Main "HOL-Library.Word" "HOL-Library.Multiset"
begin

section \<open>Data model (types.ts)\<close>

text \<open>
  A JavaScript string is a sequence of 16-bit UTF-16 code units. The numbers of the program
  (\<open>number\<close> in the source, IEEE doubles) are indices and counts; they are integers here,
  and the one arithmetic operation on them, \<open>+ 1\<close> on a count, rounds as a double does.
\<close>

type_synonym jsstring = "16 word list"

datatype QType =
  fill_in_blank | multiple_choice_one_correct | multiple_choice_best_answer | true_false

record RawOption =
  id_o :: jsstring
  text_o :: jsstring
  is_correct :: bool

text \<open>Optional fields (\<open>answer?\<close>, \<open>options?\<close>, \<open>explanation?\<close>) are \<open>None\<close> when absent.\<close>

record RawQuestion =
  id_r :: int
  type_r :: QType
  type_description :: jsstring
  question :: jsstring
  answer :: "jsstring option"
  options_r :: "RawOption list option"
  explanation_r :: "jsstring option"

record Question =
  id_q :: jsstring
  type_q :: QType
  typeLabel :: jsstring
  prompt :: jsstring
  options :: "jsstring list option"
  correctIndex :: "int option"
  correctAnswer :: "jsstring option"
  explanation :: "jsstring option"

datatype TypeFilter = AllTypes | OnlyType QType

datatype Mode = random20 | all_mode | wrongOnly

record Filters =
  type_f :: TypeFilter
  mode :: Mode
  shuffle_f :: bool

text \<open>\<open>Record<string, number>\<close> and \<open>Record<string, boolean>\<close>: maps from question id.\<close>

record Progress =
  seen :: "jsstring \<rightharpoonup> int"
  wrong :: "jsstring \<rightharpoonup> int"
  correct :: "jsstring \<rightharpoonup> int"
  starred :: "jsstring \<rightharpoonup> bool"

section \<open>Question bank loader: processQuestions\<close>

text \<open>
  \<open>Array.prototype.findIndex\<close>: the index of the first element satisfying the predicate,
  \<open>-1\<close> when there is none. The loop carries the index of the element under inspection.
\<close>

fun findIndex_from :: "int \<Rightarrow> ('a \<Rightarrow> bool) \<Rightarrow> 'a list \<Rightarrow> int" where
  "findIndex_from k P [] = -1"
| "findIndex_from k P (x # xs) = (if P x then k else findIndex_from (k + 1) P xs)"

definition findIndex :: "('a \<Rightarrow> bool) \<Rightarrow> 'a list \<Rightarrow> int" where
  "findIndex P xs = findIndex_from 0 P xs"

text \<open>
  The callback of \<open>raw.map\<close>. \<open>String(q.id)\<close> is the platform's number-to-string conversion,
  taken as the parameter \<open>String_of\<close>. An options array is truthy even when it is empty, so
  \<open>if (q.options)\<close> tests presence only.
\<close>

definition processQuestion :: "(int \<Rightarrow> jsstring) \<Rightarrow> RawQuestion \<Rightarrow> Question" where
  "processQuestion String_of q =
     (let base = \<lparr> id_q = String_of (id_r q), type_q = type_r q,
                    typeLabel = type_description q, prompt = question q,
                    options = None, correctIndex = None, correctAnswer = None,
                    explanation = explanation_r q \<rparr>
      in if type_r q = fill_in_blank then base \<lparr> correctAnswer := answer q \<rparr>
         else (case options_r q of
                 Some os \<Rightarrow>
                   (let correctIdx = findIndex is_correct os
                    in base \<lparr> options := Some (map text_o os), correctIndex := Some correctIdx \<rparr>)
               | None \<Rightarrow> base))"

definition processQuestions :: "(int \<Rightarrow> jsstring) \<Rightarrow> RawQuestion list \<Rightarrow> Question list" where
  "processQuestions String_of raw = map (processQuestion String_of) raw"

section \<open>Text normalizer: normalize\<close>

text \<open>
  The code units matched by the regular-expression class \<open>\s\<close> and stripped by
  \<open>String.prototype.trim\<close>: ECMAScript's WhiteSpace and LineTerminator productions.
\<close>

definition isWhiteSpace :: "16 word \<Rightarrow> bool" where
  "isWhiteSpace c \<longleftrightarrow>
     c = 0x0009 \<or> c = 0x000A \<or> c = 0x000B \<or> c = 0x000C \<or> c = 0x000D \<or> c = 0x0020 \<or>
     c = 0x00A0 \<or> c = 0x1680 \<or> (0x2000 \<le> c \<and> c \<le> 0x200A) \<or> c = 0x2028 \<or>
     c = 0x2029 \<or> c = 0x202F \<or> c = 0x205F \<or> c = 0x3000 \<or> c = 0xFEFF"

text \<open>The class \<open>[a-z0-9]\<close>.\<close>

definition isLowerAlnum :: "16 word \<Rightarrow> bool" where
  "isLowerAlnum c \<longleftrightarrow> (0x61 \<le> c \<and> c \<le> 0x7A) \<or> (0x30 \<le> c \<and> c \<le> 0x39)"

text \<open>The class of the code units U+0300 to U+036F (combining diacritical marks).\<close>

definition isCombiningMark :: "16 word \<Rightarrow> bool" where
  "isCombiningMark c \<longleftrightarrow> 0x0300 \<le> c \<and> c \<le> 0x036F"

definition trim :: "jsstring \<Rightarrow> jsstring" where
  "trim s = rev (dropWhile isWhiteSpace (rev (dropWhile isWhiteSpace s)))"

text \<open>\<open>.replace(/[U+0300-U+036F]/g, "")\<close>: every matching code unit is deleted.\<close>

definition removeMarks :: "jsstring \<Rightarrow> jsstring" where
  "removeMarks s = filter (\<lambda>c. \<not> isCombiningMark c) s"

text \<open>\<open>.replace(/[^a-z0-9\s]/g, " ")\<close>: every code unit outside the class becomes a space.\<close>

definition replaceOther :: "jsstring \<Rightarrow> jsstring" where
  "replaceOther s = map (\<lambda>c. if isLowerAlnum c \<or> isWhiteSpace c then c else 0x20) s"

text \<open>\<open>.replace(/\s+/g, " ")\<close>: every maximal run of white space becomes one space.\<close>

function collapseSpaces :: "jsstring \<Rightarrow> jsstring" where
  "collapseSpaces [] = []"
| "collapseSpaces (c # cs) =
     (if isWhiteSpace c then 0x20 # collapseSpaces (dropWhile isWhiteSpace cs)
      else c # collapseSpaces cs)"
  by pat_completeness auto
termination
  by (relation "measure length") (auto simp: less_Suc_eq_le length_dropWhile_le)

text \<open>
  \<open>normalize\<close> of the source. \<open>String.prototype.toLowerCase\<close> and
  \<open>String.prototype.normalize("NFD")\<close> belong to the platform (they are the Unicode case
  mapping and canonical decomposition); they are the parameters \<open>toLowerCase\<close> and \<open>nfd\<close>.
\<close>

definition normalize_str ::
  "(jsstring \<Rightarrow> jsstring) \<Rightarrow> (jsstring \<Rightarrow> jsstring) \<Rightarrow> jsstring \<Rightarrow> jsstring" where
  "normalize_str toLowerCase nfd s =
     trim (collapseSpaces (replaceOther (removeMarks (nfd (toLowerCase (trim s))))))"

text \<open>
  What the proofs need of the platform: a string of ASCII lower-case letters, digits and
  spaces is its own lower-case form and its own canonical decomposition.
\<close>

definition plainChar :: "16 word \<Rightarrow> bool" where
  "plainChar c \<longleftrightarrow> isLowerAlnum c \<or> c = 0x20"

definition fixesPlain :: "(jsstring \<Rightarrow> jsstring) \<Rightarrow> bool" where
  "fixesPlain f \<longleftrightarrow> (\<forall>s. list_all plainChar s \<longrightarrow> f s = s)"

section \<open>shuffle\<close>

text \<open>
  The Fisher-Yates loop \<open>for (i = a.length - 1; i > 0; i--)\<close>. \<open>rnd k\<close> is the value of the
  \<open>k\<close>-th call of \<open>Math.random()\<close>, a number in \<open>[0, 1)\<close>; \<open>j\<close> is
  \<open>Math.floor(Math.random() * (i + 1))\<close>. The destructuring swap reads both elements, then
  writes \<open>a[i]\<close>, then \<open>a[j]\<close>.
\<close>

fun shuffle_loop :: "(nat \<Rightarrow> rat) \<Rightarrow> nat \<Rightarrow> nat \<Rightarrow> 'a list \<Rightarrow> 'a list" where
  "shuffle_loop rnd k 0 a = a"
| "shuffle_loop rnd k (Suc n) a =
     (let i = Suc n;
          j = nat \<lfloor>rnd k * of_nat (i + 1)\<rfloor>
      in shuffle_loop rnd (k + 1) n (a[i := a ! j, j := a ! i]))"

definition shuffle :: "(nat \<Rightarrow> rat) \<Rightarrow> 'a list \<Rightarrow> 'a list" where
  "shuffle rnd arr = shuffle_loop rnd 0 (length arr - 1) arr"

definition randomOk :: "(nat \<Rightarrow> rat) \<Rightarrow> bool" where
  "randomOk rnd \<longleftrightarrow> (\<forall>k. 0 \<le> rnd k \<and> rnd k < 1)"

section \<open>Progress store: loadProgress\<close>

text \<open>
  \<open>localStorage.getItem\<close> either throws or returns the stored string, \<open>null\<close> when the key is
  absent.
\<close>

datatype storage_read = GetItemThrows | Item "jsstring option"

text \<open>
  The value of \<open>JSON.parse(raw) as Progress\<close>, as far as \<open>loadProgress\<close> looks at it:
  \<open>null\<close>, on which a property read throws, or a value whose four properties are each
  either absent (\<open>undefined\<close> or \<open>null\<close>, here \<open>None\<close>) or a map of the declared type.
  \<open>JSON.parse\<close> itself is the parameter \<open>parse\<close>; \<open>None\<close> is its SyntaxError.
\<close>

datatype parsed =
  JsonNull
| JsonValue "(jsstring \<rightharpoonup> int) option" "(jsstring \<rightharpoonup> int) option"
            "(jsstring \<rightharpoonup> int) option" "(jsstring \<rightharpoonup> bool) option"

datatype error = StorageError | NoData | SyntaxError | TypeError

definition emptyProgress :: Progress where
  "emptyProgress = \<lparr> seen = Map.empty, wrong = Map.empty, correct = Map.empty,
                     starred = Map.empty \<rparr>"

text \<open>\<open>x ?? {}\<close>\<close>

definition orEmpty :: "('k \<rightharpoonup> 'v) option \<Rightarrow> ('k \<rightharpoonup> 'v)" where
  "orEmpty x = (case x of None \<Rightarrow> Map.empty | Some m \<Rightarrow> m)"

text \<open>The body of the \<open>try\<close> block; \<open>!raw\<close> holds for \<open>null\<close> and for the empty string.\<close>

definition loadProgress_try ::
  "(jsstring \<Rightarrow> parsed option) \<Rightarrow> storage_read \<Rightarrow> error + Progress" where
  "loadProgress_try parse storage =
     (case storage of
        GetItemThrows \<Rightarrow> Inl StorageError
      | Item raw \<Rightarrow>
          (case raw of
             None \<Rightarrow> Inl NoData
           | Some r \<Rightarrow>
               (if r = [] then Inl NoData
                else (case parse r of
                        None \<Rightarrow> Inl SyntaxError
                      | Some JsonNull \<Rightarrow> Inl TypeError
                      | Some (JsonValue s w c st) \<Rightarrow>
                          Inr \<lparr> seen = orEmpty s, wrong = orEmpty w, correct = orEmpty c,
                                starred = orEmpty st \<rparr>))))"

text \<open>\<open>try { ... } catch { return empty }\<close>: the result of the whole function.\<close>

definition loadProgress ::
  "(jsstring \<Rightarrow> parsed option) \<Rightarrow> storage_read \<Rightarrow> error + Progress" where
  "loadProgress parse storage =
     (case loadProgress_try parse storage of
        Inl e \<Rightarrow> Inr emptyProgress
      | Inr p \<Rightarrow> Inr p)"

text \<open>\<open>m[k] ?? 0\<close>\<close>

definition orZero :: "(jsstring \<rightharpoonup> int) \<Rightarrow> jsstring \<Rightarrow> int" where
  "orZero m k = (case m k of None \<Rightarrow> 0 | Some v \<Rightarrow> v)"

section \<open>Sampler: the memoised list filtered\<close>

definition matchesType :: "TypeFilter \<Rightarrow> Question \<Rightarrow> bool" where
  "matchesType t q = (case t of AllTypes \<Rightarrow> True | OnlyType ty \<Rightarrow> type_q q = ty)"

text \<open>
  \<open>(currentProgress.wrong[q.id] ?? 0) > (currentProgress.correct[q.id] ?? 0)\<close>
\<close>

definition missedMore :: "Progress \<Rightarrow> Question \<Rightarrow> bool" where
  "missedMore currentProgress q \<longleftrightarrow>
     orZero (wrong currentProgress) (id_q q) > orZero (correct currentProgress) (id_q q)"

text \<open>
  The body of the \<open>useMemo\<close> that computes \<open>filtered\<close>, over the bank \<open>QUESTIONS\<close>. In
  \<open>wrongOnly\<close> mode it reads the persisted progress with \<open>loadProgress()\<close>; an exception
  of that call would leave the body.
\<close>

definition filtered ::
  "Question list \<Rightarrow> (jsstring \<Rightarrow> parsed option) \<Rightarrow> storage_read \<Rightarrow> (nat \<Rightarrow> rat) \<Rightarrow>
   Filters \<Rightarrow> error + Question list" where
  "filtered QUESTIONS parse storage rnd filters =
     (let list0 = QUESTIONS;
          list1 = (if type_f filters \<noteq> AllTypes
                   then filter (matchesType (type_f filters)) list0 else list0)
      in case (if mode filters = wrongOnly
               then (case loadProgress parse storage of
                       Inl e \<Rightarrow> Inl e
                     | Inr currentProgress \<Rightarrow> Inr (filter (missedMore currentProgress) list1))
               else Inr list1) of
           Inl e \<Rightarrow> Inl e
         | Inr list2 \<Rightarrow>
             (let list3 = (if shuffle_f filters then shuffle rnd list2 else list2);
                  list4 = (if mode filters = random20
                           then take (min 20 (length list3)) list3 else list3)
              in Inr list4))"

section \<open>Session state and handlers of App\<close>

text \<open>
  The component state that the handlers read and write: the progress store, the working
  list (the current value of \<open>filtered\<close>), \<open>idx\<close>, and the per-question state.
\<close>

record State =
  progress :: Progress
  working :: "Question list"
  idx :: nat
  selected :: "int option"
  fillValue :: jsstring
  revealed :: bool
  isCorrect :: "bool option"

text \<open>\<open>filtered[idx]\<close>, \<open>undefined\<close> (here \<open>None\<close>) when the index is out of range.\<close>

definition current :: "State \<Rightarrow> Question option" where
  "current s = (if idx s < length (working s) then Some (working s ! idx s) else None)"

definition total :: "State \<Rightarrow> int" where
  "total s = int (length (working s))"

text \<open>
  \<open>x + 1\<close> on an integer-valued double \<open>x\<close>. The sum is exact while its magnitude is at most
  \<open>2^53\<close>. Beyond that the doubles are the even integers up to magnitude \<open>2^54\<close>, where the
  odd sum lies halfway between \<open>x\<close> and \<open>x + 2\<close> and is rounded to the one with the even
  significand (the multiple of 4), and from magnitude \<open>2^54\<close> on they lie at least 4 apart,
  so that the sum is rounded back to \<open>x\<close>.
\<close>

definition plusOne :: "int \<Rightarrow> int" where
  "plusOne x =
     (if \<bar>x + 1\<bar> \<le> 2 ^ 53 then x + 1
      else if \<bar>x\<bar> < 2 ^ 54 then (if x mod 4 = 0 then x else x + 2)
      else x)"

text \<open>\<open>Number.isSafeInteger\<close>: the integers of magnitude at most \<open>2^53 - 1\<close>.\<close>

definition isSafeInteger :: "int \<Rightarrow> bool" where
  "isSafeInteger x \<longleftrightarrow> \<bar>x\<bar> \<le> 2 ^ 53 - 1"

definition markSeen :: "jsstring \<Rightarrow> Progress \<Rightarrow> Progress" where
  "markSeen qid p = p \<lparr> seen := (seen p)(qid \<mapsto> plusOne (orZero (seen p) qid)) \<rparr>"

definition markCorrect :: "jsstring \<Rightarrow> Progress \<Rightarrow> Progress" where
  "markCorrect qid p =
     p \<lparr> correct := (correct p)(qid \<mapsto> plusOne (orZero (correct p) qid)) \<rparr>"

definition markWrong :: "jsstring \<Rightarrow> Progress \<Rightarrow> Progress" where
  "markWrong qid p = p \<lparr> wrong := (wrong p)(qid \<mapsto> plusOne (orZero (wrong p) qid)) \<rparr>"

text \<open>\<open>!p.starred[qid]\<close>: an absent entry is falsy.\<close>

definition toggleStar :: "jsstring \<Rightarrow> Progress \<Rightarrow> Progress" where
  "toggleStar qid p =
     p \<lparr> starred := (starred p)(qid \<mapsto> \<not> (case starred p qid of None \<Rightarrow> False | Some b \<Rightarrow> b)) \<rparr>"

text \<open>\<open>setProgress((p) => ...)\<close>: the queued updaters run in order on the store.\<close>

definition setProgress :: "(Progress \<Rightarrow> Progress) \<Rightarrow> State \<Rightarrow> State" where
  "setProgress f s = s \<lparr> progress := f (progress s) \<rparr>"

definition handleOptionClick :: "int \<Rightarrow> State \<Rightarrow> State" where
  "handleOptionClick optIdx s =
     (case current s of
        None \<Rightarrow> s
      | Some cur \<Rightarrow>
          if revealed s then s
          else
            (let s1 = s \<lparr> selected := Some optIdx \<rparr>;
                 s2 = setProgress (markSeen (id_q cur)) s1;
                 ok = (Some optIdx = correctIndex cur);
                 s3 = s2 \<lparr> isCorrect := Some ok \<rparr>;
                 s4 = (if ok then setProgress (markCorrect (id_q cur)) s3
                       else setProgress (markWrong (id_q cur)) s3)
             in s4 \<lparr> revealed := True \<rparr>))"

text \<open>\<open>current.correctAnswer || ""\<close>\<close>

definition orEmptyString :: "jsstring option \<Rightarrow> jsstring" where
  "orEmptyString a = (case a of None \<Rightarrow> [] | Some x \<Rightarrow> x)"

definition checkFill ::
  "(jsstring \<Rightarrow> jsstring) \<Rightarrow> (jsstring \<Rightarrow> jsstring) \<Rightarrow> State \<Rightarrow> State" where
  "checkFill toLowerCase nfd s =
     (case current s of
        None \<Rightarrow> s
      | Some cur \<Rightarrow>
          if type_q cur \<noteq> fill_in_blank \<or> trim (fillValue s) = [] then s
          else
            (let s1 = setProgress (markSeen (id_q cur)) s;
                 ok = (normalize_str toLowerCase nfd (fillValue s) =
                       normalize_str toLowerCase nfd (orEmptyString (correctAnswer cur)));
                 s2 = s1 \<lparr> isCorrect := Some ok \<rparr>;
                 s3 = (if ok then setProgress (markCorrect (id_q cur)) s2
                       else setProgress (markWrong (id_q cur)) s2)
             in s3 \<lparr> revealed := True \<rparr>))"

text \<open>
  The effect keyed on \<open>[idx, current?.id]\<close>: it runs after \<open>idx\<close> has changed and clears the
  per-question state.
\<close>

definition resetQuestionState :: "State \<Rightarrow> State" where
  "resetQuestionState s =
     s \<lparr> selected := None, fillValue := [], revealed := False, isCorrect := None \<rparr>"

definition next_q :: "State \<Rightarrow> State" where
  "next_q s =
     (if int (idx s) < total s - 1 then resetQuestionState (s \<lparr> idx := idx s + 1 \<rparr>) else s)"

definition prev_q :: "State \<Rightarrow> State" where
  "prev_q s = (if idx s > 0 then resetQuestionState (s \<lparr> idx := idx s - 1 \<rparr>) else s)"

section \<open>Where the handlers are called from\<close>

text \<open>
  A key press as \<open>onKey\<close> inspects it: whether the target is the text input, and which key.
  \<open>Digit n\<close> is a key whose \<open>Number(e.key)\<close> is the number \<open>n\<close>.
\<close>

datatype Key = Enter | ModBackspace | Digit int | OtherKey

definition isChoice :: "Question \<Rightarrow> bool" where
  "isChoice q \<longleftrightarrow>
     type_q q = multiple_choice_one_correct \<or> type_q q = multiple_choice_best_answer \<or>
     type_q q = true_false"

definition onKey ::
  "(jsstring \<Rightarrow> jsstring) \<Rightarrow> (jsstring \<Rightarrow> jsstring) \<Rightarrow> bool \<Rightarrow> Key \<Rightarrow> State \<Rightarrow> State" where
  "onKey toLowerCase nfd targetIsInput key s =
     (case current s of
        None \<Rightarrow> s
      | Some cur \<Rightarrow>
          if targetIsInput then
            (if key = Enter
             then (if \<not> revealed s then checkFill toLowerCase nfd s else next_q s)
             else s)
          else
            (case key of
               Enter \<Rightarrow> if revealed s then next_q s else s
             | ModBackspace \<Rightarrow> prev_q s
             | Digit n \<Rightarrow>
                 (case options cur of
                    Some os \<Rightarrow>
                      if isChoice cur \<and> \<not> revealed s \<and> n \<ge> 1 \<and> n \<le> int (length os)
                      then handleOptionClick (n - 1) s else s
                  | None \<Rightarrow> s)
             | OtherKey \<Rightarrow> s))"

text \<open>
  The button "Kiem tra" with \<open>onClick={checkFill}\<close>: it is rendered only for a
  \<open>fill_in_blank\<close> question that is not revealed, and disabled while \<open>fillValue.trim()\<close> is
  empty. A click where there is no enabled button does nothing.
\<close>

definition checkButtonClick ::
  "(jsstring \<Rightarrow> jsstring) \<Rightarrow> (jsstring \<Rightarrow> jsstring) \<Rightarrow> State \<Rightarrow> State" where
  "checkButtonClick toLowerCase nfd s =
     (case current s of
        None \<Rightarrow> s
      | Some cur \<Rightarrow>
          if type_q cur = fill_in_blank \<and> \<not> revealed s \<and> trim (fillValue s) \<noteq> []
          then checkFill toLowerCase nfd s else s)"

text \<open>
  The option rows with \<open>onClick={() => handleOptionClick(i)}\<close>: rendered for a choice
  question that has options, one row for each index \<open>i\<close> of \<open>current.options\<close>.
\<close>

definition optionRowClick :: "nat \<Rightarrow> State \<Rightarrow> State" where
  "optionRowClick i s =
     (case current s of
        None \<Rightarrow> s
      | Some cur \<Rightarrow>
          (case options cur of
             Some os \<Rightarrow> if isChoice cur \<and> i < length os then handleOptionClick (int i) s else s
           | None \<Rightarrow> s))"

section \<open>The component run after a change of filters\<close>

text \<open>
  The card of the current question. Unless the list is empty (\<open>total === 0\<close>), the JSX
  reads \<open>current.typeLabel\<close>; on \<open>undefined\<close> that read throws. The result is the label
  shown, \<open>None\<close> for the empty-state card.
\<close>

definition renderCard :: "State \<Rightarrow> error + jsstring option" where
  "renderCard s =
     (if total s = 0 then Inr None
      else (case current s of
              None \<Rightarrow> Inl TypeError
            | Some cur \<Rightarrow> Inr (Some (typeLabel cur))))"

text \<open>
  \<open>setFilters\<close> makes the component run again with the new filters. The dependencies of the
  \<open>useMemo\<close> have changed, so \<open>filtered\<close> is computed anew in that run; \<open>idx\<close> is still the
  state of the run before, since the effect that calls \<open>setIdx(0)\<close> runs only after this run
  has returned its card.
\<close>

definition renderWithFilters ::
  "Question list \<Rightarrow> (jsstring \<Rightarrow> parsed option) \<Rightarrow> storage_read \<Rightarrow> (nat \<Rightarrow> rat) \<Rightarrow>
   Filters \<Rightarrow> State \<Rightarrow> error + jsstring option" where
  "renderWithFilters QUESTIONS parse storage rnd filters s =
     (case filtered QUESTIONS parse storage rnd filters of
        Inl e \<Rightarrow> Inl e
      | Inr list \<Rightarrow> renderCard (s \<lparr> working := list \<rparr>))"

text \<open>The three counters of a question in a store.\<close>

definition counters :: "Progress \<Rightarrow> jsstring \<Rightarrow> int \<times> int \<times> int" where
  "counters p qid = (orZero (seen p) qid, orZero (correct p) qid, orZero (wrong p) qid)"

section \<open>Auxiliary notions for the proofs\<close>

text \<open>
  The shape of every result of \<open>normalize\<close>: letters, digits and spaces only, no two
  adjacent white-space code units, none at either end.
\<close>

fun singleSpaced :: "jsstring \<Rightarrow> bool" where
  "singleSpaced [] = True"
| "singleSpaced [c] = True"
| "singleSpaced (c # d # cs) = (\<not> (isWhiteSpace c \<and> isWhiteSpace d) \<and> singleSpaced (d # cs))"

definition spacesOnly :: "jsstring \<Rightarrow> bool" where
  "spacesOnly s \<longleftrightarrow> (\<forall>c \<in> set s. isWhiteSpace c \<longrightarrow> c = 0x20)"

definition canonical :: "jsstring \<Rightarrow> bool" where
  "canonical t \<longleftrightarrow>
     (\<forall>c \<in> set t. plainChar c) \<and> singleSpaced t \<and>
     (t = [] \<or> (\<not> isWhiteSpace (hd t) \<and> \<not> isWhiteSpace (last t)))"

text \<open>
  Concrete instances of the two platform functions, for the worked examples. They agree
  with Unicode on strings made of ASCII characters and the two Vietnamese letters
  U+00E0 (a with grave: a, U+0300) and U+1ED9 (o with circumflex and dot below:
  o, U+0323, U+0302): ASCII capitals are lowered, the two letters are decomposed.
\<close>

definition sampleToLowerCase :: "jsstring \<Rightarrow> jsstring" where
  "sampleToLowerCase s = map (\<lambda>c. if 0x41 \<le> c \<and> c \<le> 0x5A then c + 0x20 else c) s"

definition sampleNfd :: "jsstring \<Rightarrow> jsstring" where
  "sampleNfd s =
     concat (map (\<lambda>c. if c = 0x00E0 then [0x61, 0x0300]
                        else if c = 0x1ED9 then [0x6F, 0x0323, 0x0302] else [c]) s)"

section \<open>Examples used below\<close>

text \<open>
  \<open>String(n)\<close> for an integral number \<open>n\<close> (of magnitude below \<open>10^21\<close>): its decimal digits,
  with a leading minus sign when negative.
\<close>

fun decimal :: "nat \<Rightarrow> jsstring" where
  "decimal n = (if n < 10 then [0x30 + of_nat n] else decimal (n div 10) @ [0x30 + of_nat (n mod 10)])"

declare decimal.simps [simp del]

definition String_int :: "int \<Rightarrow> jsstring" where
  "String_int i = (if i < 0 then 0x2D # decimal (nat (- i)) else decimal (nat i))"

text \<open>A true/false entry with no option flagged, and a choice entry with two flagged.\<close>

definition noneFlagged :: RawQuestion where
  "noneFlagged = \<lparr> id_r = 7, type_r = true_false, type_description = [], question = [],
     answer = None,
     options_r = Some [\<lparr> id_o = [0x61], text_o = [0x44], is_correct = False \<rparr>,
                       \<lparr> id_o = [0x62], text_o = [0x53], is_correct = False \<rparr>],
     explanation_r = None \<rparr>"

definition twoFlagged :: RawQuestion where
  "twoFlagged = \<lparr> id_r = 8, type_r = multiple_choice_one_correct, type_description = [],
     question = [], answer = None,
     options_r = Some [\<lparr> id_o = [0x61], text_o = [0x41], is_correct = False \<rparr>,
                       \<lparr> id_o = [0x62], text_o = [0x42], is_correct = True \<rparr>,
                       \<lparr> id_o = [0x63], text_o = [0x43], is_correct = True \<rparr>],
     explanation_r = None \<rparr>"

text \<open>
  A stored progress document, \<open>{"wrong":{"8":2,"9":1},"correct":{"8":1,"9":1}}\<close>, and a
  stand-in for \<open>JSON.parse\<close> that knows the texts \<open>null\<close>, \<open>{}\<close> and this document and
  rejects every other text.
\<close>

definition storedText :: jsstring where
  "storedText =
     [0x7B, 0x22, 0x77, 0x72, 0x6F, 0x6E, 0x67, 0x22, 0x3A, 0x7B, 0x22, 0x38, 0x22, 0x3A, 0x32,
      0x2C, 0x22, 0x39, 0x22, 0x3A, 0x31, 0x7D, 0x2C, 0x22, 0x63, 0x6F, 0x72, 0x72, 0x65, 0x63,
      0x74, 0x22, 0x3A, 0x7B, 0x22, 0x38, 0x22, 0x3A, 0x31, 0x2C, 0x22, 0x39, 0x22, 0x3A, 0x31,
      0x7D, 0x7D]"

definition sampleParse :: "jsstring \<Rightarrow> parsed option" where
  "sampleParse r =
     (if r = [0x6E, 0x75, 0x6C, 0x6C] then Some JsonNull
      else if r = [0x7B, 0x7D] then Some (JsonValue None None None None)
      else if r = storedText
      then Some (JsonValue None (Some [[0x38] \<mapsto> 2, [0x39] \<mapsto> 1])
                           (Some [[0x38] \<mapsto> 1, [0x39] \<mapsto> 1]) None)
      else None)"

text \<open>A source of random numbers in \<open>[0, 1)\<close>.\<close>

definition sampleRandom :: "nat \<Rightarrow> rat" where
  "sampleRandom k = (if even k then 1 / 2 else 3 / 4)"

text \<open>A fill-in-blank entry whose answer is "Ha Noi" with its Vietnamese diacritics, and a bank.\<close>

definition fillRaw :: RawQuestion where
  "fillRaw = \<lparr> id_r = 9, type_r = fill_in_blank, type_description = [], question = [],
     answer = Some [0x48, 0xE0, 0x20, 0x4E, 0x1ED9, 0x69], options_r = None,
     explanation_r = None \<rparr>"

definition sampleBank :: "Question list" where
  "sampleBank = processQuestions String_int [twoFlagged, fillRaw, noneFlagged]"

text \<open>
  Two session states over the sample bank with an empty store: at the fill-in-blank
  question with "ha noi" typed, and at the first (choice) question.
\<close>

definition fillState :: State where
  "fillState = \<lparr> progress = emptyProgress, working = sampleBank, idx = 1, selected = None,
     fillValue = [0x68, 0x61, 0x20, 0x6E, 0x6F, 0x69], revealed = False, isCorrect = None \<rparr>"

definition choiceState :: State where
  "choiceState = \<lparr> progress = emptyProgress, working = sampleBank, idx = 0, selected = None,
     fillValue = [], revealed = False, isCorrect = None \<rparr>"

text \<open>
  The state at the first question with a store in which that question (id "8") has been
  seen and answered correctly \<open>2^53\<close> times, as a persisted document can say.
\<close>

definition saturatedState :: State where
  "saturatedState =
     choiceState \<lparr> progress := \<lparr> seen = [[0x38] \<mapsto> 9007199254740992], wrong = Map.empty,
                                  correct = [[0x38] \<mapsto> 9007199254740992],
                                  starred = Map.empty \<rparr> \<rparr>"

text \<open>
  The state at the last of the three questions of the bank, and the filters that select
  the fill-in-blank questions only.
\<close>

definition lastQuestionState :: State where
  "lastQuestionState = choiceState \<lparr> idx := 2 \<rparr>"

definition fillInOnly :: Filters where
  "fillInOnly = \<lparr> type_f = OnlyType fill_in_blank, mode = all_mode, shuffle_f = False \<rparr>"

section \<open>Properties of the text normalizer\<close>

lemma alnum_not_ws: "isLowerAlnum c \<Longrightarrow> \<not> isWhiteSpace c"
  unfolding isLowerAlnum_def isWhiteSpace_def
  by (auto simp: word_le_nat_alt)

lemma alnum_not_mark: "isLowerAlnum c \<Longrightarrow> \<not> isCombiningMark c"
  unfolding isLowerAlnum_def isCombiningMark_def
  by (auto simp: word_le_nat_alt)

lemma space_ws: "isWhiteSpace 0x20"
  by (simp add: isWhiteSpace_def)

lemma space_not_mark: "\<not> isCombiningMark 0x20"
  by (simp add: isCombiningMark_def)

lemma space_not_alnum: "\<not> isLowerAlnum 0x20"
  by (simp add: isLowerAlnum_def)

lemma trim_id:
  assumes "s = [] \<or> (\<not> isWhiteSpace (hd s) \<and> \<not> isWhiteSpace (last s))"
  shows "trim s = s"
proof (cases "s = []")
  case True
  then show ?thesis by (simp add: trim_def)
next
  case False
  then have 1: "dropWhile isWhiteSpace s = s"
    using assms by (cases s) auto
  have "hd (rev s) = last s" by (rule hd_rev)
  then have 2: "dropWhile isWhiteSpace (rev s) = rev s"
    using assms False by (simp add: dropWhile_eq_self_iff)
  show ?thesis unfolding trim_def by (simp only: 1 2 rev_rev_ident)
qed

lemma collapse_id: "spacesOnly s \<Longrightarrow> singleSpaced s \<Longrightarrow> collapseSpaces s = s"
proof (induction s rule: singleSpaced.induct)
  case 1
  then show ?case by simp
next
  case (2 c)
  then show ?case by (simp add: spacesOnly_def)
next
  case (3 c d cs)
  have so: "spacesOnly (d # cs)" using "3.prems"(1) by (simp add: spacesOnly_def)
  have ss: "singleSpaced (d # cs)" using "3.prems"(2) by simp
  have ih: "collapseSpaces (d # cs) = d # cs" using "3.IH" so ss by blast
  show ?case
  proof (cases "isWhiteSpace c")
    case True
    then have c: "c = 0x20" using "3.prems"(1) by (simp add: spacesOnly_def)
    have nd: "\<not> isWhiteSpace d" using "3.prems"(2) True by simp
    have "collapseSpaces (c # d # cs) = 0x20 # collapseSpaces (dropWhile isWhiteSpace (d # cs))"
      using True by (simp only: collapseSpaces.simps if_True)
    also have "dropWhile isWhiteSpace (d # cs) = d # cs" using nd by simp
    finally have "collapseSpaces (c # d # cs) = 0x20 # collapseSpaces (d # cs)" .
    then show ?thesis by (simp only: ih c)
  next
    case False
    then have "collapseSpaces (c # d # cs) = c # collapseSpaces (d # cs)"
      by (simp only: collapseSpaces.simps if_False)
    then show ?thesis by (simp only: ih)
  qed
qed


lemma last_dropWhile: "dropWhile P xs \<noteq> [] \<Longrightarrow> last (dropWhile P xs) = last xs"
  by (induction xs) auto

lemma trim_ends:
  "trim s = [] \<or> (\<not> isWhiteSpace (hd (trim s)) \<and> \<not> isWhiteSpace (last (trim s)))"
proof (cases "trim s = []")
  case True
  then show ?thesis by simp
next
  case False
  let ?d = "dropWhile isWhiteSpace s"
  let ?t = "dropWhile isWhiteSpace (rev ?d)"
  have ts: "trim s = rev ?t" by (simp add: trim_def)
  have tne: "?t \<noteq> []" using False ts by simp
  have dne: "?d \<noteq> []"
  proof
    assume "?d = []"
    then have "?t = []" by (simp only: rev.simps(1) dropWhile.simps(1))
    then show False using tne by blast
  qed
  have "last (trim s) = hd ?t" using ts tne by (simp add: last_rev)
  moreover have "\<not> isWhiteSpace (hd ?t)" using tne by (rule hd_dropWhile)
  moreover have "hd (trim s) = last ?t" using ts tne by (simp add: hd_rev)
  moreover have "last ?t = last (rev ?d)" using tne by (rule last_dropWhile)
  moreover have "last (rev ?d) = hd ?d" using dne by (simp add: last_rev)
  moreover have "\<not> isWhiteSpace (hd ?d)" using dne by (rule hd_dropWhile)
  ultimately show ?thesis by simp
qed

lemma trim_infix: "\<exists>a b. s = a @ trim s @ b"
proof -
  let ?d = "dropWhile isWhiteSpace s"
  have 1: "s = takeWhile isWhiteSpace s @ ?d" by simp
  have "rev ?d = takeWhile isWhiteSpace (rev ?d) @ dropWhile isWhiteSpace (rev ?d)" by simp
  then have "rev (rev ?d) =
      rev (takeWhile isWhiteSpace (rev ?d) @ dropWhile isWhiteSpace (rev ?d))"
    by (rule arg_cong)
  then have 2: "?d = trim s @ rev (takeWhile isWhiteSpace (rev ?d))"
    by (simp only: rev_rev_ident rev_append trim_def)
  have "s = takeWhile isWhiteSpace s @ trim s @ rev (takeWhile isWhiteSpace (rev ?d))"
    using 1 2 by metis
  then show ?thesis by blast
qed

lemma set_trim: "set (trim s) \<subseteq> set s"
proof -
  obtain a b where "s = a @ trim s @ b" using trim_infix by blast
  then have "set s = set a \<union> set (trim s) \<union> set b" by (metis set_append Un_assoc)
  then show ?thesis by blast
qed

lemma singleSpaced_tl: "singleSpaced (x # xs) \<Longrightarrow> singleSpaced xs"
  by (cases xs) auto

lemma singleSpaced_suffix: "singleSpaced (xs @ ys) \<Longrightarrow> singleSpaced ys"
  by (induction xs) (auto dest: singleSpaced_tl)

lemma singleSpaced_prefix: "singleSpaced (xs @ ys) \<Longrightarrow> singleSpaced xs"
proof (induction xs rule: singleSpaced.induct)
  case 1
  then show ?case by simp
next
  case (2 c)
  then show ?case by simp
next
  case (3 c d cs)
  then show ?case by simp
qed

lemma singleSpaced_trim: "singleSpaced s \<Longrightarrow> singleSpaced (trim s)"
proof -
  assume ss: "singleSpaced s"
  obtain a b where ab: "s = a @ trim s @ b" using trim_infix by blast
  have "singleSpaced (a @ trim s @ b)" using ss ab by simp
  then have "singleSpaced (trim s @ b)" by (rule singleSpaced_suffix)
  then show ?thesis by (rule singleSpaced_prefix)
qed


lemma collapse_hd:
  "collapseSpaces s \<noteq> [] \<Longrightarrow> isWhiteSpace (hd (collapseSpaces s)) = isWhiteSpace (hd s)"
proof (cases s)
  case Nil
  then show ?thesis by simp
next
  case (Cons c cs)
  show ?thesis
  proof (cases "isWhiteSpace c")
    case True
    then have "hd (collapseSpaces s) = 0x20" using Cons by simp
    then show ?thesis using True Cons space_ws by simp
  next
    case False
    then have "hd (collapseSpaces s) = c" using Cons by simp
    then show ?thesis using Cons by simp
  qed
qed

lemma collapse_singleSpaced: "singleSpaced (collapseSpaces s)"
proof (induction s rule: collapseSpaces.induct)
  case 1
  then show ?case by simp
next
  case (2 c cs)
  show ?case
  proof (cases "isWhiteSpace c")
    case True
    let ?r = "dropWhile isWhiteSpace cs"
    have ih: "singleSpaced (collapseSpaces ?r)" using 2(1) True by blast
    have eq: "collapseSpaces (c # cs) = 0x20 # collapseSpaces ?r"
      using True by (simp only: collapseSpaces.simps if_True)
    show ?thesis
    proof (cases "collapseSpaces ?r")
      case Nil
      then show ?thesis unfolding eq by simp
    next
      case (Cons d ds)
      have ne: "?r \<noteq> []"
      proof
        assume "?r = []"
        then have "collapseSpaces ?r = []" by (simp only: collapseSpaces.simps(1))
        then show False using Cons by simp
      qed
      then have "\<not> isWhiteSpace (hd ?r)" by (rule hd_dropWhile)
      moreover have "isWhiteSpace (hd (collapseSpaces ?r)) = isWhiteSpace (hd ?r)"
        by (rule collapse_hd) (simp add: Cons)
      ultimately have "\<not> isWhiteSpace d" using Cons by simp
      then show ?thesis unfolding eq using ih Cons by simp
    qed
  next
    case False
    have ih: "singleSpaced (collapseSpaces cs)" using 2(2) False by blast
    have eq: "collapseSpaces (c # cs) = c # collapseSpaces cs"
      using False by (simp only: collapseSpaces.simps if_False)
    show ?thesis unfolding eq using False ih by (cases "collapseSpaces cs") simp_all
  qed
qed

lemma collapse_plain:
  "\<forall>c \<in> set s. isLowerAlnum c \<or> isWhiteSpace c \<Longrightarrow> \<forall>c \<in> set (collapseSpaces s). plainChar c"
proof (induction s rule: collapseSpaces.induct)
  case 1
  then show ?case by simp
next
  case (2 c cs)
  show ?case
  proof (cases "isWhiteSpace c")
    case True
    let ?r = "dropWhile isWhiteSpace cs"
    have "\<forall>c \<in> set ?r. isLowerAlnum c \<or> isWhiteSpace c"
      using 2(3) by (auto dest: set_dropWhileD)
    then have ih: "\<forall>c \<in> set (collapseSpaces ?r). plainChar c" using 2(1) True by blast
    have eq: "collapseSpaces (c # cs) = 0x20 # collapseSpaces ?r"
      using True by (simp only: collapseSpaces.simps if_True)
    show ?thesis unfolding eq using ih by (simp add: plainChar_def)
  next
    case False
    have "\<forall>c \<in> set cs. isLowerAlnum c \<or> isWhiteSpace c" using 2(3) by simp
    then have ih: "\<forall>c \<in> set (collapseSpaces cs). plainChar c" using 2(2) False by blast
    have eq: "collapseSpaces (c # cs) = c # collapseSpaces cs"
      using False by (simp only: collapseSpaces.simps if_False)
    have "plainChar c" using 2(3) False by (simp add: plainChar_def)
    then show ?thesis unfolding eq using ih by simp
  qed
qed

lemma replaceOther_class: "\<forall>c \<in> set (replaceOther s). isLowerAlnum c \<or> isWhiteSpace c"
  by (auto simp: replaceOther_def space_ws)

lemma normalize_canonical: "canonical (normalize_str lo nf s)"
proof -
  let ?u = "collapseSpaces (replaceOther (removeMarks (nf (lo (trim s)))))"
  have n: "normalize_str lo nf s = trim ?u" by (simp add: normalize_str_def)
  have "\<forall>c \<in> set ?u. plainChar c" by (rule collapse_plain) (rule replaceOther_class)
  then have 1: "\<forall>c \<in> set (trim ?u). plainChar c" using set_trim by blast
  have 2: "singleSpaced (trim ?u)" by (rule singleSpaced_trim) (rule collapse_singleSpaced)
  show ?thesis unfolding canonical_def n using 1 2 trim_ends by blast
qed

lemma plain_cases: "plainChar c \<Longrightarrow> \<not> isCombiningMark c \<and> (isLowerAlnum c \<or> isWhiteSpace c) \<and> (isWhiteSpace c \<longrightarrow> c = 0x20)"
  unfolding plainChar_def
  using alnum_not_mark alnum_not_ws space_not_mark space_ws by blast

lemma canonical_fixed:
  assumes lo: "fixesPlain lo" and nf: "fixesPlain nf" and c: "canonical t"
  shows "normalize_str lo nf t = t"
proof -
  have pl: "\<forall>c \<in> set t. plainChar c" using c by (simp add: canonical_def)
  have la: "list_all plainChar t" using pl by (simp add: list_all_iff)
  have 1: "trim t = t" using c by (intro trim_id) (simp add: canonical_def)
  have 2: "lo t = t" using lo la by (simp add: fixesPlain_def)
  have 3: "nf t = t" using nf la by (simp add: fixesPlain_def)
  have 4: "removeMarks t = t"
    unfolding removeMarks_def using pl plain_cases by (simp add: filter_id_conv)
  have 5: "replaceOther t = t"
    unfolding replaceOther_def using pl plain_cases by (intro map_idI) auto
  have so: "spacesOnly t" unfolding spacesOnly_def using pl plain_cases by blast
  have 6: "collapseSpaces t = t" using so c by (intro collapse_id) (simp_all add: canonical_def)
  show ?thesis unfolding normalize_str_def by (simp only: 1 2 3 4 5 6)
qed

lemma sampleToLowerCase_fixes: "fixesPlain sampleToLowerCase"
proof -
  have "\<And>c. plainChar c \<Longrightarrow> \<not> (0x41 \<le> c \<and> c \<le> 0x5A)"
    unfolding plainChar_def isLowerAlnum_def by (auto simp: word_le_nat_alt)
  then show ?thesis
    unfolding fixesPlain_def sampleToLowerCase_def
    by (auto simp: list_all_iff intro!: map_idI)
qed

lemma sampleNfd_plain: "list_all plainChar s \<Longrightarrow> sampleNfd s = s"
proof (induction s)
  case Nil
  then show ?case by (simp add: sampleNfd_def)
next
  case (Cons c cs)
  have "plainChar c" using Cons.prems by simp
  then have "c \<noteq> 0x00E0 \<and> c \<noteq> 0x1ED9"
    unfolding plainChar_def isLowerAlnum_def by (auto simp: word_le_nat_alt)
  then show ?case using Cons by (simp add: sampleNfd_def)
qed

lemma sampleNfd_fixes: "fixesPlain sampleNfd"
  unfolding fixesPlain_def using sampleNfd_plain by blast

text \<open>
  C5. The text normalizer is idempotent: normalizing a normalized string changes nothing.
  The platform's \<open>toLowerCase\<close> and NFD are only required to leave strings of ASCII
  lower-case letters, digits and spaces as they are.
\<close>

theorem normalize_idempotent:
  assumes "fixesPlain toLowerCase" and "fixesPlain nfd"
  shows "normalize_str toLowerCase nfd (normalize_str toLowerCase nfd s) =
         normalize_str toLowerCase nfd s"
  using assms by (intro canonical_fixed normalize_canonical)

theorem normalize_idempotent_witness:
  "fixesPlain sampleToLowerCase \<and> fixesPlain sampleNfd \<and>
   normalize_str sampleToLowerCase sampleNfd
     (normalize_str sampleToLowerCase sampleNfd
        [0x48, 0xE0, 0x20, 0x4E, 0x1ED9, 0x69, 0x20, 0x20]) =
   normalize_str sampleToLowerCase sampleNfd [0x48, 0xE0, 0x20, 0x4E, 0x1ED9, 0x69, 0x20, 0x20]"
  using normalize_idempotent [OF sampleToLowerCase_fixes sampleNfd_fixes,
      of "[0x48, 0xE0, 0x20, 0x4E, 0x1ED9, 0x69, 0x20, 0x20]"]
    sampleToLowerCase_fixes sampleNfd_fixes
  by blast

section \<open>Properties of the loader\<close>

lemma findIndex_from_none: "\<forall>x \<in> set xs. \<not> P x \<Longrightarrow> findIndex_from k P xs = -1"
  by (induction xs arbitrary: k) auto

lemma findIndex_from_first:
  "\<exists>x \<in> set xs. P x \<Longrightarrow>
   \<exists>i < length xs. findIndex_from k P xs = k + int i \<and> P (xs ! i) \<and> (\<forall>j < i. \<not> P (xs ! j))"
proof (induction xs arbitrary: k)
  case Nil
  then show ?case by simp
next
  case (Cons x xs)
  show ?case
  proof (cases "P x")
    case True
    then have "findIndex_from k P (x # xs) = k + int 0 \<and> P ((x # xs) ! 0) \<and>
               (\<forall>j < 0. \<not> P ((x # xs) ! j))" by simp
    then show ?thesis by blast
  next
    case False
    then have "\<exists>y \<in> set xs. P y" using Cons.prems by auto
    then obtain i where i: "i < length xs" "findIndex_from (k + 1) P xs = k + 1 + int i"
      "P (xs ! i)" "\<forall>j < i. \<not> P (xs ! j)"
      using Cons.IH[of "k + 1"] by blast
    have "\<forall>j < Suc i. \<not> P ((x # xs) ! j)"
      using False i(4) by (auto simp: nth_Cons split: nat.splits)
    moreover have "findIndex_from k P (x # xs) = k + int (Suc i)" using False i(2) by simp
    moreover have "P ((x # xs) ! Suc i)" using i(3) by simp
    moreover have "Suc i < length (x # xs)" using i(1) by simp
    ultimately show ?thesis by blast
  qed
qed

text \<open>
  C2 (as amended). A choice entry that has an options array is loaded without failure. If
  some option is flagged correct, \<open>correctIndex\<close> is the index of the first flagged option,
  so it lies within the options; if none is flagged, \<open>correctIndex\<close> is \<open>-1\<close>.
\<close>

theorem loader_first_flagged_or_minus_one:
  assumes "type_r q \<noteq> fill_in_blank" and "options_r q = Some os"
  shows "options (processQuestion String_of q) = Some (map text_o os) \<and>
         ((\<exists>x \<in> set os. is_correct x) \<longrightarrow>
            (\<exists>i < length os. correctIndex (processQuestion String_of q) = Some (int i) \<and>
               is_correct (os ! i) \<and> (\<forall>j < i. \<not> is_correct (os ! j)))) \<and>
         ((\<forall>x \<in> set os. \<not> is_correct x) \<longrightarrow>
            correctIndex (processQuestion String_of q) = Some (-1))"
proof -
  have ci: "correctIndex (processQuestion String_of q) = Some (findIndex_from 0 is_correct os)"
    using assms by (simp add: processQuestion_def findIndex_def)
  have op: "options (processQuestion String_of q) = Some (map text_o os)"
    using assms by (simp add: processQuestion_def)
  have a: "(\<exists>x \<in> set os. is_correct x) \<longrightarrow>
            (\<exists>i < length os. findIndex_from 0 is_correct os = int i \<and>
               is_correct (os ! i) \<and> (\<forall>j < i. \<not> is_correct (os ! j)))"
    using findIndex_from_first[of os is_correct 0] by simp
  have b: "(\<forall>x \<in> set os. \<not> is_correct x) \<longrightarrow> findIndex_from 0 is_correct os = -1"
    using findIndex_from_none[of os is_correct 0] by simp
  show ?thesis using ci op a b by simp
qed

text \<open>
  C2 as stated fails: for a true/false entry whose two options are both unflagged the
  loader returns normally with \<open>correctIndex = -1\<close>, outside \<open>0 <= correctIndex < 2\<close>.
\<close>

theorem loader_none_flagged_counterexample:
  "type_r noneFlagged \<noteq> fill_in_blank \<and>
   options (processQuestion String_int noneFlagged) = Some [[0x44], [0x53]] \<and>
   correctIndex (processQuestion String_int noneFlagged) = Some (-1) \<and>
   \<not> (0 \<le> (-1::int) \<and> (-1::int) < int (length [[0x44::16 word], [0x53]]))"
  by (simp add: noneFlagged_def processQuestion_def findIndex_def)

theorem loader_first_flagged_witness:
  "type_r twoFlagged \<noteq> fill_in_blank \<and>
   options_r twoFlagged = Some [\<lparr> id_o = [0x61], text_o = [0x41], is_correct = False \<rparr>,
                       \<lparr> id_o = [0x62], text_o = [0x42], is_correct = True \<rparr>,
                       \<lparr> id_o = [0x63], text_o = [0x43], is_correct = True \<rparr>] \<and>
   correctIndex (processQuestion String_int twoFlagged) = Some 1 \<and>
   options (processQuestion String_int twoFlagged) = Some [[0x41], [0x42], [0x43]]"
proof -
  have t: "type_r twoFlagged \<noteq> fill_in_blank" by (simp add: twoFlagged_def)
  have o: "options_r twoFlagged = Some [\<lparr> id_o = [0x61], text_o = [0x41], is_correct = False \<rparr>,
                       \<lparr> id_o = [0x62], text_o = [0x42], is_correct = True \<rparr>,
                       \<lparr> id_o = [0x63], text_o = [0x43], is_correct = True \<rparr>]"
    by (simp add: twoFlagged_def)
  have c: "correctIndex (processQuestion String_int twoFlagged) = Some 1"
    by (simp add: twoFlagged_def processQuestion_def findIndex_def)
  show ?thesis using loader_first_flagged_or_minus_one [OF t o, of String_int] t o c by simp
qed

section \<open>Properties of the progress store\<close>

text \<open>
  C9. Loading persisted progress never fails: \<open>loadProgress\<close> returns a store for every
  outcome of reading the storage and every behaviour of \<open>JSON.parse\<close>; when the read
  throws, the item is absent or empty, or the text does not parse (or parses to \<open>null\<close>), the
  store returned is empty in all four maps.
\<close>

theorem loadProgress_never_fails:
  "(\<exists>p. loadProgress parse storage = Inr p) \<and>
   (storage = GetItemThrows \<or> storage = Item None \<or> storage = Item (Some []) \<or>
    (\<exists>r. storage = Item (Some r) \<and> (parse r = None \<or> parse r = Some JsonNull))
      \<longrightarrow> loadProgress parse storage = Inr emptyProgress) \<and>
   seen emptyProgress = Map.empty \<and> wrong emptyProgress = Map.empty \<and>
   correct emptyProgress = Map.empty \<and> starred emptyProgress = Map.empty"
proof -
  have 1: "\<exists>p. loadProgress parse storage = Inr p"
    unfolding loadProgress_def by (cases "loadProgress_try parse storage") auto
  have 2: "storage = GetItemThrows \<or> storage = Item None \<or> storage = Item (Some []) \<or>
    (\<exists>r. storage = Item (Some r) \<and> (parse r = None \<or> parse r = Some JsonNull))
      \<longrightarrow> loadProgress parse storage = Inr emptyProgress"
    unfolding loadProgress_def loadProgress_try_def by auto
  show ?thesis using 1 2 by (simp add: emptyProgress_def)
qed

theorem loadProgress_never_fails_witness:
  "loadProgress sampleParse (Item (Some [0x7B, 0x22])) = Inr emptyProgress \<and>
   sampleParse [0x7B, 0x22] = None \<and>
   loadProgress sampleParse (Item None) = Inr emptyProgress"
proof -
  have p: "sampleParse [0x7B, 0x22] = None" by (simp add: sampleParse_def storedText_def)
  have "loadProgress sampleParse (Item (Some [0x7B, 0x22])) = Inr emptyProgress"
    using loadProgress_never_fails [of sampleParse "Item (Some [0x7B, 0x22])"] p by blast
  moreover have "loadProgress sampleParse (Item None) = Inr emptyProgress"
    using loadProgress_never_fails [of sampleParse "Item None"] by blast
  ultimately show ?thesis using p by simp
qed

section \<open>Properties of the sampler\<close>

lemma floor_index: assumes "0 \<le> (r::rat)" "r < 1" shows "nat \<lfloor>r * of_nat (i + 1)\<rfloor> \<le> i"
proof -
  have "r * of_nat (i + 1) < of_nat (i + 1)" using assms by simp
  then have "\<lfloor>r * of_nat (i + 1)\<rfloor> < int (i + 1)" by (simp add: floor_less_iff)
  then show ?thesis by simp
qed

lemma length_shuffle_loop: "length (shuffle_loop rnd k n a) = length a"
  by (induction n arbitrary: k a) (simp_all add: Let_def)

lemma mset_shuffle_loop:
  "randomOk rnd \<Longrightarrow> n \<le> length a - 1 \<Longrightarrow> mset (shuffle_loop rnd k n a) = mset a"
proof (induction n arbitrary: k a)
  case 0
  then show ?case by simp
next
  case (Suc n)
  let ?i = "Suc n"
  let ?j = "nat \<lfloor>rnd k * of_nat (?i + 1)\<rfloor>"
  let ?b = "a[?i := a ! ?j, ?j := a ! ?i]"
  have i: "?i < length a" using Suc.prems(2) by simp
  have "0 \<le> rnd k \<and> rnd k < 1" using Suc.prems(1) by (simp add: randomOk_def)
  then have "?j \<le> ?i" using floor_index by blast
  then have j: "?j < length a" using i by simp
  have sw: "mset ?b = mset a" using j i by (rule mset_swap)
  have "n \<le> length ?b - 1" using Suc.prems(2) by simp
  then have "mset (shuffle_loop rnd (k + 1) n ?b) = mset ?b" using Suc.IH Suc.prems(1) by blast
  then show ?case using sw by (simp add: Let_def)
qed

lemma length_shuffle: "length (shuffle rnd a) = length a"
  by (simp add: shuffle_def length_shuffle_loop)

lemma mset_shuffle: "randomOk rnd \<Longrightarrow> mset (shuffle rnd a) = mset a"
  by (simp add: shuffle_def mset_shuffle_loop)


lemma matchesType_All: "matchesType AllTypes q"
  by (simp add: matchesType_def)

lemma filtered_wrongOnly:
  assumes "mode filters = wrongOnly" and "loadProgress parse storage = Inr p"
  shows "filtered Q parse storage rnd filters =
           Inr ((if shuffle_f filters then shuffle rnd else (\<lambda>l. l))
                  (filter (missedMore p) (filter (matchesType (type_f filters)) Q)))"
proof -
  have "type_f filters = AllTypes \<Longrightarrow> filter (matchesType (type_f filters)) Q = Q"
    by (simp add: matchesType_def)
  then show ?thesis using assms by (auto simp: filtered_def Let_def matchesType_All)
qed

text \<open>
  C3. In mode \<open>wrongOnly\<close> the working set consists of exactly the type-matching questions
  of the bank whose wrong count exceeds their correct count in the persisted progress that
  \<open>loadProgress\<close> returns (absent entries count as zero): as a multiset when the list is
  shuffled, as the very list in bank order when it is not. A question whose correct count
  is at least its wrong count is not in it.
\<close>

theorem wrongOnly_working_set:
  assumes "mode filters = wrongOnly" and "shuffle_f filters \<longrightarrow> randomOk rnd"
  shows "\<exists>p ws. loadProgress parse storage = Inr p \<and>
           filtered Q parse storage rnd filters = Inr ws \<and>
           mset ws = mset (filter (\<lambda>q. matchesType (type_f filters) q \<and>
                        orZero (wrong p) (id_q q) > orZero (correct p) (id_q q)) Q) \<and>
           (\<forall>q \<in> set Q. orZero (correct p) (id_q q) \<ge> orZero (wrong p) (id_q q)
                          \<longrightarrow> q \<notin> set ws) \<and>
           (\<not> shuffle_f filters \<longrightarrow>
              ws = filter (\<lambda>q. matchesType (type_f filters) q \<and>
                        orZero (wrong p) (id_q q) > orZero (correct p) (id_q q)) Q)"
proof -
  obtain p where p: "loadProgress parse storage = Inr p"
    unfolding loadProgress_def by (cases "loadProgress_try parse storage") auto
  let ?want = "filter (\<lambda>q. matchesType (type_f filters) q \<and>
                        orZero (wrong p) (id_q q) > orZero (correct p) (id_q q)) Q"
  let ?l2 = "filter (missedMore p) (filter (matchesType (type_f filters)) Q)"
  let ?ws = "(if shuffle_f filters then shuffle rnd else (\<lambda>l. l)) ?l2"
  have l2: "?l2 = ?want" by (simp add: missedMore_def conj_commute)
  have f: "filtered Q parse storage rnd filters = Inr ?ws"
    using assms(1) p by (rule filtered_wrongOnly)
  have m: "mset ?ws = mset ?want" using assms(2) l2 by (simp add: mset_shuffle)
  have e: "\<forall>q \<in> set Q. orZero (correct p) (id_q q) \<ge> orZero (wrong p) (id_q q)
                          \<longrightarrow> q \<notin> set ?ws"
  proof -
    have "set ?ws = set ?want" using m by (rule mset_eq_setD)
    then show ?thesis by auto
  qed
  have n: "\<not> shuffle_f filters \<longrightarrow> ?ws = ?want" using l2 by simp
  show ?thesis
  proof (intro exI conjI)
    show "loadProgress parse storage = Inr p" by (rule p)
    show "filtered Q parse storage rnd filters = Inr ?ws" by (rule f)
    show "mset ?ws = mset ?want" by (rule m)
    show "\<forall>q \<in> set Q. orZero (correct p) (id_q q) \<ge> orZero (wrong p) (id_q q)
                          \<longrightarrow> q \<notin> set ?ws" by (rule e)
    show "\<not> shuffle_f filters \<longrightarrow> ?ws = ?want" by (rule n)
  qed
qed

lemma filtered_random20:
  assumes "mode filters = random20"
  shows "filtered Q parse storage rnd filters =
           Inr (take (min 20 (length (filter (matchesType (type_f filters)) Q)))
                  ((if shuffle_f filters then shuffle rnd else (\<lambda>l. l))
                     (filter (matchesType (type_f filters)) Q)))"
proof -
  have "type_f filters = AllTypes \<Longrightarrow> filter (matchesType (type_f filters)) Q = Q"
    by (simp add: matchesType_def)
  then show ?thesis using assms by (auto simp: filtered_def Let_def length_shuffle matchesType_All)
qed

lemma mset_take_subseteq: "mset (take n l) \<subseteq># mset l"
proof -
  have "mset l = mset (take n l) + mset (drop n l)"
    by (metis append_take_drop_id mset_append)
  then show ?thesis by simp
qed

lemma distinct_submset:
  assumes "mset ws \<subseteq># mset l" and "distinct l"
  shows "distinct ws"
proof -
  obtain zs where zs: "mset l = mset ws + zs"
    using assms(1) by (auto simp: subset_mset.le_iff_add)
  obtain zl where zl: "zs = mset zl" using ex_mset[of zs] by blast
  have "mset l = mset (ws @ zl)" using zs zl by simp
  then have "distinct (ws @ zl)" using assms(2) mset_eq_imp_distinct_iff by blast
  then show ?thesis by simp
qed

text \<open>
  C7. In mode \<open>random20\<close> the sampler returns \<open>min 20 n\<close> questions, where \<open>n\<close> is the length
  of the type-filtered list: 20 of 50, 5 of 5. They are distinct entries of that list: the
  result takes no entry more often than the list holds it, so it is a distinct list when
  the bank is, and has distinct ids when the bank has.
\<close>

theorem random20_size_and_distinct:
  assumes "mode filters = random20" and "shuffle_f filters \<longrightarrow> randomOk rnd"
  shows "\<exists>ws. filtered Q parse storage rnd filters = Inr ws \<and>
           length ws = min 20 (length (filter (matchesType (type_f filters)) Q)) \<and>
           mset ws \<subseteq># mset (filter (matchesType (type_f filters)) Q) \<and>
           (distinct Q \<longrightarrow> distinct ws) \<and>
           (distinct (map id_q Q) \<longrightarrow> distinct (map id_q ws)) \<and>
           (length (filter (matchesType (type_f filters)) Q) = 50 \<longrightarrow> length ws = 20) \<and>
           (length (filter (matchesType (type_f filters)) Q) = 5 \<longrightarrow> length ws = 5)"
proof -
  let ?flt = "filter (matchesType (type_f filters)) Q"
  let ?l3 = "(if shuffle_f filters then shuffle rnd else (\<lambda>l. l)) ?flt"
  let ?ws = "take (min 20 (length ?flt)) ?l3"
  have f: "filtered Q parse storage rnd filters = Inr ?ws"
    using assms(1) by (rule filtered_random20)
  have l3: "length ?l3 = length ?flt" by (simp add: length_shuffle)
  have len: "length ?ws = min 20 (length ?flt)" using l3 by simp
  have m3: "mset ?l3 = mset ?flt" using assms(2) by (simp add: mset_shuffle)
  have sub: "mset ?ws \<subseteq># mset ?flt" using mset_take_subseteq[of _ ?l3] m3 by simp
  have d1: "distinct Q \<longrightarrow> distinct ?ws"
  proof
    assume "distinct Q"
    then have "distinct ?flt" by simp
    with sub show "distinct ?ws" by (rule distinct_submset)
  qed
  have d2: "distinct (map id_q Q) \<longrightarrow> distinct (map id_q ?ws)"
  proof
    assume "distinct (map id_q Q)"
    then have "distinct (map id_q ?flt)" by (rule distinct_map_filter)
    moreover have "mset (map id_q ?ws) \<subseteq># mset (map id_q ?flt)"
      using sub by (simp add: image_mset_subseteq_mono)
    ultimately show "distinct (map id_q ?ws)" by (rule distinct_submset[rotated])
  qed
  have a: "length ?flt = 50 \<longrightarrow> length ?ws = 20" using len by simp
  have b: "length ?flt = 5 \<longrightarrow> length ?ws = 5" using len by simp
  show ?thesis
  proof (intro exI conjI)
    show "filtered Q parse storage rnd filters = Inr ?ws" by (rule f)
    show "length ?ws = min 20 (length ?flt)" by (rule len)
    show "mset ?ws \<subseteq># mset ?flt" by (rule sub)
    show "distinct Q \<longrightarrow> distinct ?ws" by (rule d1)
    show "distinct (map id_q Q) \<longrightarrow> distinct (map id_q ?ws)" by (rule d2)
    show "length ?flt = 50 \<longrightarrow> length ?ws = 20" by (rule a)
    show "length ?flt = 5 \<longrightarrow> length ?ws = 5" by (rule b)
  qed
qed

lemma sampleRandom_ok: "randomOk sampleRandom"
  by (simp add: randomOk_def sampleRandom_def)

lemma sampleBank_eval: "map id_q sampleBank = [[0x38], [0x39], [0x37]]"
  by (simp add: sampleBank_def processQuestions_def processQuestion_def twoFlagged_def
      fillRaw_def noneFlagged_def String_int_def decimal.simps)

lemma sampleBank_unfold:
  "sampleBank = [processQuestion String_int twoFlagged, processQuestion String_int fillRaw,
                 processQuestion String_int noneFlagged]"
  by (simp add: sampleBank_def processQuestions_def)

lemma sample_ids:
  "id_q (processQuestion String_int twoFlagged) = [0x38]"
  "id_q (processQuestion String_int fillRaw) = [0x39]"
  "id_q (processQuestion String_int noneFlagged) = [0x37]"
  by (simp_all add: processQuestion_def twoFlagged_def fillRaw_def noneFlagged_def
      String_int_def decimal.simps)

lemma sample_load:
  "loadProgress sampleParse (Item (Some storedText)) =
     Inr \<lparr> seen = Map.empty, wrong = [[0x38] \<mapsto> 2, [0x39] \<mapsto> 1],
           correct = [[0x38] \<mapsto> 1, [0x39] \<mapsto> 1], starred = Map.empty \<rparr>"
proof -
  have "sampleParse storedText =
          Some (JsonValue None (Some [[0x38] \<mapsto> 2, [0x39] \<mapsto> 1])
                           (Some [[0x38] \<mapsto> 1, [0x39] \<mapsto> 1]) None)"
    by (simp add: sampleParse_def) (simp add: storedText_def)
  moreover have "storedText \<noteq> []" by (simp add: storedText_def)
  ultimately show ?thesis by (simp add: loadProgress_def loadProgress_try_def orEmpty_def)
qed

lemma shuffle_example: "shuffle sampleRandom [a, b, c] = [a, c, b]"
proof -
  have "\<lfloor>(3::rat) / 2\<rfloor> = 1" by (simp add: floor_eq_iff)
  then show ?thesis by (simp add: shuffle_def sampleRandom_def numeral_2_eq_2 Let_def)
qed

theorem wrongOnly_working_set_witness:
  "mode \<lparr> type_f = AllTypes, mode = wrongOnly, shuffle_f = True \<rparr> = wrongOnly \<and>
   randomOk sampleRandom \<and>
   filtered sampleBank sampleParse (Item (Some storedText)) sampleRandom
      \<lparr> type_f = AllTypes, mode = wrongOnly, shuffle_f = True \<rparr> =
   Inr [processQuestion String_int twoFlagged]"
proof -
  let ?F = "\<lparr> type_f = AllTypes, mode = wrongOnly, shuffle_f = True \<rparr>"
  have m: "mode ?F = wrongOnly" by simp
  have r: "shuffle_f ?F \<longrightarrow> randomOk sampleRandom" using sampleRandom_ok by simp
  obtain p ws where
    p: "loadProgress sampleParse (Item (Some storedText)) = Inr p" and
    f: "filtered sampleBank sampleParse (Item (Some storedText)) sampleRandom ?F = Inr ws" and
    ms: "mset ws = mset (filter (\<lambda>q. matchesType (type_f ?F) q \<and>
                        orZero (wrong p) (id_q q) > orZero (correct p) (id_q q)) sampleBank)"
    using wrongOnly_working_set [OF m r, of sampleParse "Item (Some storedText)" sampleBank]
    by blast
  have pv: "p = \<lparr> seen = Map.empty, wrong = [[0x38] \<mapsto> 2, [0x39] \<mapsto> 1],
           correct = [[0x38] \<mapsto> 1, [0x39] \<mapsto> 1], starred = Map.empty \<rparr>"
    using p sample_load by simp
  have "filter (\<lambda>q. matchesType (type_f ?F) q \<and>
                        orZero (wrong p) (id_q q) > orZero (correct p) (id_q q)) sampleBank
        = [processQuestion String_int twoFlagged]"
    by (simp add: pv sampleBank_unfold sample_ids orZero_def matchesType_All)
  then have "ws = [processQuestion String_int twoFlagged]" using ms by simp
  then show ?thesis using f m sampleRandom_ok by simp
qed

theorem random20_size_and_distinct_witness:
  "mode \<lparr> type_f = AllTypes, mode = random20, shuffle_f = True \<rparr> = random20 \<and>
   randomOk sampleRandom \<and>
   (\<exists>ws. filtered sampleBank sampleParse (Item None) sampleRandom
           \<lparr> type_f = AllTypes, mode = random20, shuffle_f = True \<rparr> = Inr ws \<and>
         length ws = 3 \<and> distinct (map id_q ws))"
proof -
  let ?F = "\<lparr> type_f = AllTypes, mode = random20, shuffle_f = True \<rparr>"
  have m: "mode ?F = random20" by simp
  have r: "shuffle_f ?F \<longrightarrow> randomOk sampleRandom" using sampleRandom_ok by simp
  obtain ws where
    f: "filtered sampleBank sampleParse (Item None) sampleRandom ?F = Inr ws" and
    l: "length ws = min 20 (length (filter (matchesType (type_f ?F)) sampleBank))" and
    d: "distinct (map id_q sampleBank) \<longrightarrow> distinct (map id_q ws)"
    using random20_size_and_distinct [OF m r, of sampleBank sampleParse "Item None"]
    by blast
  have "length (filter (matchesType (type_f ?F)) sampleBank) = 3"
    by (simp add: sampleBank_unfold matchesType_All)
  then have l3: "length ws = 3" using l by simp
  have "distinct (map id_q sampleBank)" by (simp add: sampleBank_eval)
  then have "distinct (map id_q ws)" using d by simp
  then show ?thesis using f l3 m sampleRandom_ok by simp
qed

section \<open>Properties of the session handlers\<close>

lemma current_setProgress: "current (setProgress f s) = current s"
  by (simp add: current_def setProgress_def)

lemma handleOptionClick_progress:
  assumes "current s = Some cur" and "\<not> revealed s"
  shows "progress (handleOptionClick optIdx s) =
           (if Some optIdx = correctIndex cur then markCorrect (id_q cur) else markWrong (id_q cur))
             (markSeen (id_q cur) (progress s))"
  using assms by (simp add: handleOptionClick_def setProgress_def Let_def)

lemma checkFill_progress:
  assumes "current s = Some cur" and "type_q cur = fill_in_blank" and "trim (fillValue s) \<noteq> []"
  shows "progress (checkFill lo nf s) =
           (if normalize_str lo nf (fillValue s) =
               normalize_str lo nf (orEmptyString (correctAnswer cur))
            then markCorrect (id_q cur) else markWrong (id_q cur))
             (markSeen (id_q cur) (progress s))"
  using assms by (simp add: checkFill_def setProgress_def Let_def)

lemma plusOne_safe: "isSafeInteger x \<Longrightarrow> plusOne x = x + 1"
proof -
  assume "isSafeInteger x"
  then have "\<bar>x\<bar> \<le> 9007199254740991" by (simp add: isSafeInteger_def)
  then have "\<bar>x + 1\<bar> \<le> 9007199254740992" by arith
  then show ?thesis by (simp add: plusOne_def)
qed

lemma plusOne_absorbed: "plusOne 9007199254740992 = 9007199254740992"
  by (simp add: plusOne_def)

lemma plusOne_examples:
  "plusOne 0 = 1"
  "plusOne 9007199254740991 = 9007199254740992"
  "plusOne 9007199254740994 = 9007199254740996"
  "plusOne 18014398509481984 = 18014398509481984"
  "plusOne (- 9007199254740992) = - 9007199254740991"
  by (simp_all add: plusOne_def)

lemma counters_marked:
  "counters (markCorrect q (markSeen q p)) q =
     (plusOne (orZero (seen p) q), plusOne (orZero (correct p) q), orZero (wrong p) q)"
  "counters (markWrong q (markSeen q p)) q =
     (plusOne (orZero (seen p) q), orZero (correct p) q, plusOne (orZero (wrong p) q))"
  by (simp_all add: counters_def markCorrect_def markWrong_def markSeen_def orZero_def)

lemma counters_correct:
  assumes "isSafeInteger (orZero (seen p) q)" and "isSafeInteger (orZero (correct p) q)"
  shows "counters (markCorrect q (markSeen q p)) q =
           (orZero (seen p) q + 1, orZero (correct p) q + 1, orZero (wrong p) q)"
  using assms by (simp add: counters_marked plusOne_safe)

lemma counters_wrong:
  assumes "isSafeInteger (orZero (seen p) q)" and "isSafeInteger (orZero (wrong p) q)"
  shows "counters (markWrong q (markSeen q p)) q =
           (orZero (seen p) q + 1, orZero (correct p) q, orZero (wrong p) q + 1)"
  using assms by (simp add: counters_marked plusOne_safe)

text \<open>
  C4 (as amended). On a question that is not yet revealed and whose three counts are safe
  integers (of magnitude at most \<open>2^53 - 1\<close>), an option click with the index equal to
  \<open>correctIndex\<close> raises the question's seen and correct counts by one and leaves its wrong
  count; any other option click raises seen and wrong by one and leaves correct; an
  accepted fill-in check raises seen by one and exactly one of correct and wrong by one.
  Each of them reveals the question.
\<close>

theorem submit_counts_once:
  assumes "current s = Some cur" and "\<not> revealed s"
    and "isSafeInteger (orZero (seen (progress s)) (id_q cur))"
    and "isSafeInteger (orZero (correct (progress s)) (id_q cur))"
    and "isSafeInteger (orZero (wrong (progress s)) (id_q cur))"
  shows "(correctIndex cur = Some optIdx \<longrightarrow>
            counters (progress (handleOptionClick optIdx s)) (id_q cur) =
              (orZero (seen (progress s)) (id_q cur) + 1,
               orZero (correct (progress s)) (id_q cur) + 1,
               orZero (wrong (progress s)) (id_q cur))) \<and>
         (correctIndex cur \<noteq> Some optIdx \<longrightarrow>
            counters (progress (handleOptionClick optIdx s)) (id_q cur) =
              (orZero (seen (progress s)) (id_q cur) + 1,
               orZero (correct (progress s)) (id_q cur),
               orZero (wrong (progress s)) (id_q cur) + 1)) \<and>
         revealed (handleOptionClick optIdx s) \<and>
         (type_q cur = fill_in_blank \<and> trim (fillValue s) \<noteq> [] \<longrightarrow>
            (counters (progress (checkFill lo nf s)) (id_q cur) =
              (orZero (seen (progress s)) (id_q cur) + 1,
               orZero (correct (progress s)) (id_q cur) + 1,
               orZero (wrong (progress s)) (id_q cur)) \<or>
             counters (progress (checkFill lo nf s)) (id_q cur) =
              (orZero (seen (progress s)) (id_q cur) + 1,
               orZero (correct (progress s)) (id_q cur),
               orZero (wrong (progress s)) (id_q cur) + 1)) \<and>
            revealed (checkFill lo nf s))"
proof -
  note cc = counters_correct [OF assms(3) assms(4)]
  note cw = counters_wrong [OF assms(3) assms(5)]
  have h: "progress (handleOptionClick optIdx s) =
           (if Some optIdx = correctIndex cur then markCorrect (id_q cur) else markWrong (id_q cur))
             (markSeen (id_q cur) (progress s))"
    using assms(1,2) by (rule handleOptionClick_progress)
  have a: "correctIndex cur = Some optIdx \<longrightarrow>
            counters (progress (handleOptionClick optIdx s)) (id_q cur) =
              (orZero (seen (progress s)) (id_q cur) + 1,
               orZero (correct (progress s)) (id_q cur) + 1,
               orZero (wrong (progress s)) (id_q cur))"
    using h cc by simp
  have b: "correctIndex cur \<noteq> Some optIdx \<longrightarrow>
            counters (progress (handleOptionClick optIdx s)) (id_q cur) =
              (orZero (seen (progress s)) (id_q cur) + 1,
               orZero (correct (progress s)) (id_q cur),
               orZero (wrong (progress s)) (id_q cur) + 1)"
    using h cw by auto
  have r: "revealed (handleOptionClick optIdx s)"
    using assms(1,2) by (simp add: handleOptionClick_def Let_def setProgress_def)
  have c: "type_q cur = fill_in_blank \<and> trim (fillValue s) \<noteq> [] \<longrightarrow>
            (counters (progress (checkFill lo nf s)) (id_q cur) =
              (orZero (seen (progress s)) (id_q cur) + 1,
               orZero (correct (progress s)) (id_q cur) + 1,
               orZero (wrong (progress s)) (id_q cur)) \<or>
             counters (progress (checkFill lo nf s)) (id_q cur) =
              (orZero (seen (progress s)) (id_q cur) + 1,
               orZero (correct (progress s)) (id_q cur),
               orZero (wrong (progress s)) (id_q cur) + 1)) \<and>
            revealed (checkFill lo nf s)"
  proof (intro impI)
    assume t: "type_q cur = fill_in_blank \<and> trim (fillValue s) \<noteq> []"
    then have p: "progress (checkFill lo nf s) =
           (if normalize_str lo nf (fillValue s) =
               normalize_str lo nf (orEmptyString (correctAnswer cur))
            then markCorrect (id_q cur) else markWrong (id_q cur))
             (markSeen (id_q cur) (progress s))"
      using assms(1) by (intro checkFill_progress) simp_all
    have rv: "revealed (checkFill lo nf s)"
      using assms(1) t by (simp add: checkFill_def Let_def setProgress_def)
    show "(counters (progress (checkFill lo nf s)) (id_q cur) =
              (orZero (seen (progress s)) (id_q cur) + 1,
               orZero (correct (progress s)) (id_q cur) + 1,
               orZero (wrong (progress s)) (id_q cur)) \<or>
             counters (progress (checkFill lo nf s)) (id_q cur) =
              (orZero (seen (progress s)) (id_q cur) + 1,
               orZero (correct (progress s)) (id_q cur),
               orZero (wrong (progress s)) (id_q cur) + 1)) \<and>
            revealed (checkFill lo nf s)"
      using p rv cc cw by (cases "normalize_str lo nf (fillValue s) =
               normalize_str lo nf (orEmptyString (correctAnswer cur))") simp_all
  qed
  show ?thesis using a b r c by (intro conjI)
qed

lemma fillRaw_processed:
  "processQuestion String_int fillRaw =
     \<lparr> id_q = [0x39], type_q = fill_in_blank, typeLabel = [], prompt = [], options = None,
       correctIndex = None, correctAnswer = Some [0x48, 0xE0, 0x20, 0x4E, 0x1ED9, 0x69],
       explanation = None \<rparr>"
  by (simp add: processQuestion_def fillRaw_def String_int_def decimal.simps)

lemma twoFlagged_processed:
  "processQuestion String_int twoFlagged =
     \<lparr> id_q = [0x38], type_q = multiple_choice_one_correct, typeLabel = [], prompt = [],
       options = Some [[0x41], [0x42], [0x43]], correctIndex = Some 1, correctAnswer = None,
       explanation = None \<rparr>"
  by (simp add: processQuestion_def twoFlagged_def String_int_def decimal.simps findIndex_def)

lemma current_fillState: "current fillState = Some (processQuestion String_int fillRaw)"
  by (simp add: current_def fillState_def sampleBank_unfold)

lemma current_choiceState: "current choiceState = Some (processQuestion String_int twoFlagged)"
  by (simp add: current_def choiceState_def sampleBank_unfold)

lemma normalize_ha_noi_plain:
  "normalize_str sampleToLowerCase sampleNfd [0x68, 0x61, 0x20, 0x6E, 0x6F, 0x69] =
     [0x68, 0x61, 0x20, 0x6E, 0x6F, 0x69]"
  by (simp add: normalize_str_def trim_def sampleToLowerCase_def sampleNfd_def removeMarks_def
      replaceOther_def isWhiteSpace_def isLowerAlnum_def isCombiningMark_def)

lemma normalize_ha_noi_marked:
  "normalize_str sampleToLowerCase sampleNfd [0x48, 0xE0, 0x20, 0x4E, 0x1ED9, 0x69] =
     [0x68, 0x61, 0x20, 0x6E, 0x6F, 0x69]"
  by (simp add: normalize_str_def trim_def sampleToLowerCase_def sampleNfd_def removeMarks_def
      replaceOther_def isWhiteSpace_def isLowerAlnum_def isCombiningMark_def)


lemma progress_next_q: "progress (next_q s) = progress s"
  by (simp add: next_q_def resetQuestionState_def)

lemma progress_prev_q: "progress (prev_q s) = progress s"
  by (simp add: prev_q_def resetQuestionState_def)

lemma handleOptionClick_revealed: "revealed s \<Longrightarrow> handleOptionClick optIdx s = s"
  by (simp add: handleOptionClick_def split: option.splits)

text \<open>
  C1. Submitting again once the question is revealed changes no counter. \<open>handleOptionClick\<close>
  returns the state as it is, and so does a click on an option row or on the check button
  (which is not rendered any more); a key press leaves the store as it is: Enter in the
  text input, the one other caller of \<open>checkFill\<close>, calls \<open>next\<close> instead.
\<close>

theorem resubmission_when_revealed:
  assumes "revealed s"
  shows "handleOptionClick optIdx s = s \<and> optionRowClick i s = s \<and>
         checkButtonClick toLowerCase nfd s = s \<and>
         progress (onKey toLowerCase nfd targetIsInput key s) = progress s"
proof -
  have 1: "handleOptionClick optIdx s = s" using assms by (rule handleOptionClick_revealed)
  have 2: "optionRowClick i s = s"
    using assms by (simp add: optionRowClick_def handleOptionClick_revealed split: option.splits)
  have 3: "checkButtonClick toLowerCase nfd s = s"
    using assms by (simp add: checkButtonClick_def split: option.splits)
  have 4: "progress (onKey toLowerCase nfd targetIsInput key s) = progress s"
    using assms
    by (cases key)
       (simp_all add: onKey_def progress_next_q progress_prev_q split: option.splits)
  show ?thesis using 1 2 3 4 by (intro conjI)
qed

lemma checkFill_fillState:
  "checkFill sampleToLowerCase sampleNfd fillState =
     fillState \<lparr> progress := markCorrect [0x39] (markSeen [0x39] emptyProgress),
                 isCorrect := Some True, revealed := True \<rparr>"
proof -
  have fv: "fillValue fillState = [0x68, 0x61, 0x20, 0x6E, 0x6F, 0x69]"
    by (simp add: fillState_def)
  have t: "trim (fillValue fillState) \<noteq> []"
    by (simp add: fv trim_def isWhiteSpace_def)
  have pr: "progress fillState = emptyProgress" by (simp add: fillState_def)
  show ?thesis
    using t
    by (simp add: checkFill_def current_fillState fillRaw_processed Let_def setProgress_def
        orEmptyString_def fv pr normalize_ha_noi_plain normalize_ha_noi_marked)
qed

theorem resubmission_when_revealed_witness:
  "revealed (checkFill sampleToLowerCase sampleNfd fillState) \<and>
   checkButtonClick sampleToLowerCase sampleNfd (checkFill sampleToLowerCase sampleNfd fillState)
     = checkFill sampleToLowerCase sampleNfd fillState \<and>
   progress (onKey sampleToLowerCase sampleNfd True Enter
               (checkFill sampleToLowerCase sampleNfd fillState))
     = progress (checkFill sampleToLowerCase sampleNfd fillState) \<and>
   handleOptionClick 0 (checkFill sampleToLowerCase sampleNfd fillState)
     = checkFill sampleToLowerCase sampleNfd fillState"
proof -
  have r: "revealed (checkFill sampleToLowerCase sampleNfd fillState)"
    by (simp add: checkFill_fillState)
  show ?thesis
    using r resubmission_when_revealed [OF r, of 0 0 sampleToLowerCase sampleNfd True Enter]
    by simp
qed

lemma handleOptionClick_position:
  "idx (handleOptionClick optIdx s) = idx s \<and> working (handleOptionClick optIdx s) = working s"
  by (simp add: handleOptionClick_def setProgress_def Let_def split: option.splits)

lemma checkFill_position:
  "idx (checkFill lo nf s) = idx s \<and> working (checkFill lo nf s) = working s"
  by (simp add: checkFill_def setProgress_def Let_def split: option.splits)

lemma next_q_position:
  "idx s < length (working s) \<Longrightarrow>
   idx (next_q s) < length (working s) \<and> working (next_q s) = working s"
  by (auto simp: next_q_def total_def resetQuestionState_def)

lemma prev_q_position:
  "idx s < length (working s) \<Longrightarrow>
   idx (prev_q s) < length (working s) \<and> working (prev_q s) = working s"
  by (auto simp: prev_q_def resetQuestionState_def)

lemma onKey_position:
  assumes "idx s < length (working s)"
  shows "idx (onKey lo nf tgt key s) < length (working (onKey lo nf tgt key s))"
  using assms next_q_position [OF assms] prev_q_position [OF assms]
  by (cases key)
     (simp_all add: onKey_def handleOptionClick_position checkFill_position
        split: option.splits)

text \<open>
  On a non-empty working list, \<open>next\<close> at the last index and \<open>prev\<close> at index 0 return the
  state unchanged, and an index within the list stays within it under \<open>next\<close>, \<open>prev\<close> and
  every other handler of the session (key presses, option clicks, the check button).
\<close>

theorem navigation_bounds:
  assumes "working s \<noteq> []"
  shows "(idx s = length (working s) - 1 \<longrightarrow> next_q s = s) \<and>
         (idx s = 0 \<longrightarrow> prev_q s = s) \<and>
         (idx s < length (working s) \<longrightarrow>
            idx (next_q s) < length (working (next_q s)) \<and>
            idx (prev_q s) < length (working (prev_q s)) \<and>
            idx (onKey toLowerCase nfd targetIsInput key s)
              < length (working (onKey toLowerCase nfd targetIsInput key s)) \<and>
            idx (optionRowClick i s) < length (working (optionRowClick i s)) \<and>
            idx (checkButtonClick toLowerCase nfd s)
              < length (working (checkButtonClick toLowerCase nfd s)))"
proof -
  have 1: "idx s = length (working s) - 1 \<longrightarrow> next_q s = s"
    using assms by (auto simp: next_q_def total_def)
  have 2: "idx s = 0 \<longrightarrow> prev_q s = s" by (simp add: prev_q_def)
  have 3: "idx s < length (working s) \<longrightarrow>
            idx (next_q s) < length (working (next_q s)) \<and>
            idx (prev_q s) < length (working (prev_q s)) \<and>
            idx (onKey toLowerCase nfd targetIsInput key s)
              < length (working (onKey toLowerCase nfd targetIsInput key s)) \<and>
            idx (optionRowClick i s) < length (working (optionRowClick i s)) \<and>
            idx (checkButtonClick toLowerCase nfd s)
              < length (working (checkButtonClick toLowerCase nfd s))"
  proof
    assume a: "idx s < length (working s)"
    have o: "idx (optionRowClick i s) < length (working (optionRowClick i s))"
      using a by (simp add: optionRowClick_def handleOptionClick_position split: option.splits)
    have c: "idx (checkButtonClick toLowerCase nfd s)
              < length (working (checkButtonClick toLowerCase nfd s))"
      using a by (simp add: checkButtonClick_def checkFill_position split: option.splits)
    show "idx (next_q s) < length (working (next_q s)) \<and>
            idx (prev_q s) < length (working (prev_q s)) \<and>
            idx (onKey toLowerCase nfd targetIsInput key s)
              < length (working (onKey toLowerCase nfd targetIsInput key s)) \<and>
            idx (optionRowClick i s) < length (working (optionRowClick i s)) \<and>
            idx (checkButtonClick toLowerCase nfd s)
              < length (working (checkButtonClick toLowerCase nfd s))"
      using next_q_position [OF a] prev_q_position [OF a] onKey_position [OF a] o c
      by (intro conjI) simp_all
  qed
  show ?thesis using 1 2 3 by (intro conjI)
qed

theorem navigation_bounds_example:
  "working (choiceState \<lparr> idx := 2 \<rparr>) \<noteq> [] \<and>
   idx (choiceState \<lparr> idx := 2 \<rparr>) = length (working (choiceState \<lparr> idx := 2 \<rparr>)) - 1 \<and>
   next_q (choiceState \<lparr> idx := 2 \<rparr>) = choiceState \<lparr> idx := 2 \<rparr> \<and>
   idx choiceState = 0 \<and> prev_q choiceState = choiceState \<and>
   idx (next_q choiceState) = 1 \<and> idx (prev_q (choiceState \<lparr> idx := 2 \<rparr>)) = 1"
proof -
  have w: "working (choiceState \<lparr> idx := 2 \<rparr>) \<noteq> []"
    by (simp add: choiceState_def sampleBank_unfold)
  have w0: "working choiceState \<noteq> []" by (simp add: choiceState_def sampleBank_unfold)
  have l: "idx (choiceState \<lparr> idx := 2 \<rparr>) = length (working (choiceState \<lparr> idx := 2 \<rparr>)) - 1"
    by (simp add: choiceState_def sampleBank_unfold)
  have i0: "idx choiceState = 0" by (simp add: choiceState_def)
  have n: "idx (next_q choiceState) = 1"
    by (simp add: next_q_def total_def resetQuestionState_def choiceState_def sampleBank_unfold)
  have p: "idx (prev_q (choiceState \<lparr> idx := 2 \<rparr>)) = 1"
    by (simp add: prev_q_def resetQuestionState_def choiceState_def)
  show ?thesis
    using navigation_bounds [OF w] navigation_bounds [OF w0] w l i0 n p by simp
qed


text \<open>
  C8. The steps at the bounds are no-ops, as \<open>navigation_bounds\<close> says, yet the index does
  not always lie within the working list. At the last of three questions (reached by
  \<open>next\<close> twice), choosing the filter for fill-in-blank questions makes the component run
  with the new list of one question and the old index 2: the index is out of range, there
  is no current question, and the card, which reads \<open>current.typeLabel\<close> because the list is
  not empty, throws.
\<close>

theorem filter_change_leaves_index_out_of_range:
  "next_q (next_q choiceState) = lastQuestionState \<and>
   idx lastQuestionState < length (working lastQuestionState) \<and>
   filtered sampleBank sampleParse (Item None) sampleRandom fillInOnly =
     Inr [processQuestion String_int fillRaw] \<and>
   idx (lastQuestionState \<lparr> working := [processQuestion String_int fillRaw] \<rparr>) = 2 \<and>
   length (working (lastQuestionState \<lparr> working := [processQuestion String_int fillRaw] \<rparr>)) = 1 \<and>
   current (lastQuestionState \<lparr> working := [processQuestion String_int fillRaw] \<rparr>) = None \<and>
   renderWithFilters sampleBank sampleParse (Item None) sampleRandom fillInOnly lastQuestionState =
     Inl TypeError"
proof -
  let ?s = "lastQuestionState \<lparr> working := [processQuestion String_int fillRaw] \<rparr>"
  have t: "type_q (processQuestion String_int twoFlagged) \<noteq> fill_in_blank"
    "type_q (processQuestion String_int fillRaw) = fill_in_blank"
    "type_q (processQuestion String_int noneFlagged) \<noteq> fill_in_blank"
    by (simp_all add: processQuestion_def twoFlagged_def fillRaw_def noneFlagged_def
        split: option.splits)
  have n: "next_q (next_q choiceState) = lastQuestionState"
    by (simp add: next_q_def total_def resetQuestionState_def lastQuestionState_def
        choiceState_def sampleBank_unfold)
  have i: "idx lastQuestionState < length (working lastQuestionState)"
    by (simp add: lastQuestionState_def choiceState_def sampleBank_unfold)
  have f: "filtered sampleBank sampleParse (Item None) sampleRandom fillInOnly =
             Inr [processQuestion String_int fillRaw]"
    by (simp add: filtered_def fillInOnly_def sampleBank_unfold matchesType_def t)
  have x: "idx ?s = 2" by (simp add: lastQuestionState_def)
  have l: "length (working ?s) = 1" by simp
  have c: "current ?s = None" by (simp add: current_def lastQuestionState_def)
  have r: "renderWithFilters sampleBank sampleParse (Item None) sampleRandom fillInOnly
             lastQuestionState = Inl TypeError"
    by (simp add: renderWithFilters_def f renderCard_def total_def c)
  show ?thesis using n i f x l c r by (intro conjI)
qed

lemma marks_frame:
  "starred (markSeen q p) = starred p" "starred (markCorrect q p) = starred p"
  "starred (markWrong q p) = starred p"
  "k \<noteq> q \<Longrightarrow> seen (markSeen q p) k = seen p k"
  "seen (markCorrect q p) = seen p" "seen (markWrong q p) = seen p"
  "k \<noteq> q \<Longrightarrow> correct (markCorrect q p) k = correct p k"
  "correct (markSeen q p) = correct p" "correct (markWrong q p) = correct p"
  "k \<noteq> q \<Longrightarrow> wrong (markWrong q p) k = wrong p k"
  "wrong (markSeen q p) = wrong p" "wrong (markCorrect q p) = wrong p"
  by (simp_all add: markSeen_def markCorrect_def markWrong_def)

lemma handleOptionClick_frame:
  assumes "\<forall>cur. current s = Some cur \<longrightarrow> k \<noteq> id_q cur"
  shows "seen (progress (handleOptionClick optIdx s)) k = seen (progress s) k \<and>
         correct (progress (handleOptionClick optIdx s)) k = correct (progress s) k \<and>
         wrong (progress (handleOptionClick optIdx s)) k = wrong (progress s) k"
proof (cases "current s")
  case None
  then show ?thesis by (simp add: handleOptionClick_def)
next
  case (Some cur)
  then have k: "k \<noteq> id_q cur" using assms by simp
  show ?thesis
  proof (cases "revealed s")
    case True
    then show ?thesis by (simp add: handleOptionClick_revealed)
  next
    case False
    then show ?thesis
      using k by (simp add: handleOptionClick_progress [OF Some False] marks_frame)
  qed
qed

lemma checkFill_frame:
  assumes "\<forall>cur. current s = Some cur \<longrightarrow> k \<noteq> id_q cur"
  shows "seen (progress (checkFill lo nf s)) k = seen (progress s) k \<and>
         correct (progress (checkFill lo nf s)) k = correct (progress s) k \<and>
         wrong (progress (checkFill lo nf s)) k = wrong (progress s) k"
proof (cases "current s")
  case None
  then show ?thesis by (simp add: checkFill_def)
next
  case (Some cur)
  then have k: "k \<noteq> id_q cur" using assms by simp
  show ?thesis
  proof (cases "type_q cur = fill_in_blank \<and> trim (fillValue s) \<noteq> []")
    case True
    then have "progress (checkFill lo nf s) =
           (if normalize_str lo nf (fillValue s) =
               normalize_str lo nf (orEmptyString (correctAnswer cur))
            then markCorrect (id_q cur) else markWrong (id_q cur))
             (markSeen (id_q cur) (progress s))"
      using Some by (intro checkFill_progress) simp_all
    then show ?thesis using k by (simp add: marks_frame)
  next
    case False
    then have "checkFill lo nf s = s" using Some by (auto simp: checkFill_def)
    then show ?thesis by simp
  qed
qed

lemma handlers_starred:
  "starred (progress (handleOptionClick optIdx s)) = starred (progress s) \<and>
   starred (progress (checkFill lo nf s)) = starred (progress s)"
  by (simp add: handleOptionClick_def checkFill_def setProgress_def Let_def marks_frame
      split: option.splits)

text \<open>
  C10. Grading touches the current question only: \<open>handleOptionClick\<close> and \<open>checkFill\<close>
  leave the starred map as it is, and leave the seen, correct and wrong entries of every
  id other than the current question's as they are.
\<close>

theorem grading_frame:
  "starred (progress (handleOptionClick optIdx s)) = starred (progress s) \<and>
   starred (progress (checkFill toLowerCase nfd s)) = starred (progress s) \<and>
   (\<forall>k. (\<forall>cur. current s = Some cur \<longrightarrow> k \<noteq> id_q cur) \<longrightarrow>
      seen (progress (handleOptionClick optIdx s)) k = seen (progress s) k \<and>
      correct (progress (handleOptionClick optIdx s)) k = correct (progress s) k \<and>
      wrong (progress (handleOptionClick optIdx s)) k = wrong (progress s) k \<and>
      seen (progress (checkFill toLowerCase nfd s)) k = seen (progress s) k \<and>
      correct (progress (checkFill toLowerCase nfd s)) k = correct (progress s) k \<and>
      wrong (progress (checkFill toLowerCase nfd s)) k = wrong (progress s) k)"
  using handlers_starred [of optIdx s toLowerCase nfd]
    handleOptionClick_frame [of s _ optIdx] checkFill_frame [of s _ toLowerCase nfd]
  by simp


lemma choiceState_fields:
  "progress choiceState = emptyProgress" "revealed choiceState = False"
  by (simp_all add: choiceState_def)

theorem submit_counts_once_witness:
  "current choiceState = Some (processQuestion String_int twoFlagged) \<and>
   \<not> revealed choiceState \<and>
   correctIndex (processQuestion String_int twoFlagged) = Some 1 \<and>
   counters (progress choiceState) [0x38] = (0, 0, 0) \<and>
   counters (progress (handleOptionClick 1 choiceState)) [0x38] = (1, 1, 0) \<and>
   counters (progress (handleOptionClick 0 choiceState)) [0x38] = (1, 0, 1)"
proof -
  have nr: "\<not> revealed choiceState" by (simp add: choiceState_fields)
  have ci: "correctIndex (processQuestion String_int twoFlagged) = Some 1"
    by (simp add: twoFlagged_processed)
  have iq: "id_q (processQuestion String_int twoFlagged) = [0x38]"
    by (simp add: twoFlagged_processed)
  have z: "counters (progress choiceState) [0x38] = (0, 0, 0)"
    by (simp add: choiceState_fields counters_def emptyProgress_def orZero_def)
  have s1: "isSafeInteger (orZero (seen (progress choiceState))
              (id_q (processQuestion String_int twoFlagged)))"
    by (simp add: choiceState_fields emptyProgress_def orZero_def isSafeInteger_def)
  have s2: "isSafeInteger (orZero (correct (progress choiceState))
              (id_q (processQuestion String_int twoFlagged)))"
    by (simp add: choiceState_fields emptyProgress_def orZero_def isSafeInteger_def)
  have s3: "isSafeInteger (orZero (wrong (progress choiceState))
              (id_q (processQuestion String_int twoFlagged)))"
    by (simp add: choiceState_fields emptyProgress_def orZero_def isSafeInteger_def)
  have a: "counters (progress (handleOptionClick 1 choiceState)) [0x38] = (1, 1, 0)"
    using submit_counts_once [OF current_choiceState nr s1 s2 s3,
        of 1 sampleToLowerCase sampleNfd] ci
    by (simp add: iq choiceState_fields emptyProgress_def orZero_def)
  have b: "counters (progress (handleOptionClick 0 choiceState)) [0x38] = (1, 0, 1)"
    using submit_counts_once [OF current_choiceState nr s1 s2 s3,
        of 0 sampleToLowerCase sampleNfd] ci
    by (simp add: iq choiceState_fields emptyProgress_def orZero_def)
  show ?thesis using current_choiceState nr ci z a b by (intro conjI)
qed

text \<open>
  C4 as stated fails at a count of \<open>2^53\<close>: an option click with the correct index on a
  question not yet revealed, whose seen and correct counts the store gives as \<open>2^53\<close>,
  leaves both counts at \<open>2^53\<close>.
\<close>

theorem submit_at_saturated_count_counterexample:
  "current saturatedState = Some (processQuestion String_int twoFlagged) \<and>
   \<not> revealed saturatedState \<and>
   correctIndex (processQuestion String_int twoFlagged) = Some 1 \<and>
   counters (progress saturatedState) [0x38] = (9007199254740992, 9007199254740992, 0) \<and>
   counters (progress (handleOptionClick 1 saturatedState)) [0x38] =
     (9007199254740992, 9007199254740992, 0) \<and>
   revealed (handleOptionClick 1 saturatedState)"
proof -
  have c: "current saturatedState = Some (processQuestion String_int twoFlagged)"
    by (simp add: current_def saturatedState_def choiceState_def sampleBank_unfold)
  have nr: "\<not> revealed saturatedState" by (simp add: saturatedState_def choiceState_def)
  have ci: "correctIndex (processQuestion String_int twoFlagged) = Some 1"
    by (simp add: twoFlagged_processed)
  have iq: "id_q (processQuestion String_int twoFlagged) = [0x38]"
    by (simp add: twoFlagged_processed)
  have z: "counters (progress saturatedState) [0x38] = (9007199254740992, 9007199254740992, 0)"
    by (simp add: saturatedState_def counters_def orZero_def)
  have p: "progress (handleOptionClick 1 saturatedState) =
             markCorrect [0x38] (markSeen [0x38] (progress saturatedState))"
    using handleOptionClick_progress [OF c nr, of 1] by (simp add: ci iq)
  have zs: "orZero (seen (progress saturatedState)) [0x38] = 9007199254740992"
    "orZero (correct (progress saturatedState)) [0x38] = 9007199254740992"
    "orZero (wrong (progress saturatedState)) [0x38] = 0"
    by (simp_all add: saturatedState_def orZero_def)
  have a: "counters (progress (handleOptionClick 1 saturatedState)) [0x38] =
             (9007199254740992, 9007199254740992, 0)"
    by (simp add: p counters_marked zs plusOne_absorbed)
  have r: "revealed (handleOptionClick 1 saturatedState)"
    using c nr by (simp add: handleOptionClick_def Let_def setProgress_def)
  show ?thesis using c nr ci z a r by (intro conjI)
qed

theorem grading_frame_witness:
  "current choiceState = Some (processQuestion String_int twoFlagged) \<and>
   id_q (processQuestion String_int twoFlagged) = [0x38] \<and>
   seen (progress (handleOptionClick 1 choiceState)) [0x39] = seen (progress choiceState) [0x39] \<and>
   correct (progress (handleOptionClick 1 choiceState)) [0x39]
     = correct (progress choiceState) [0x39] \<and>
   wrong (progress (handleOptionClick 1 choiceState)) [0x39] = wrong (progress choiceState) [0x39] \<and>
   starred (progress (handleOptionClick 1 choiceState)) = starred (progress choiceState) \<and>
   seen (progress (handleOptionClick 1 choiceState)) [0x38] = Some 1"
proof -
  have iq: "id_q (processQuestion String_int twoFlagged) = [0x38]"
    by (simp add: twoFlagged_processed)
  have h: "\<forall>cur. current choiceState = Some cur \<longrightarrow> [0x39] \<noteq> id_q cur"
    by (simp add: current_choiceState iq)
  have nr: "\<not> revealed choiceState" by (simp add: choiceState_fields)
  have s: "seen (progress (handleOptionClick 1 choiceState)) [0x38] = Some 1"
    by (simp add: handleOptionClick_progress [OF current_choiceState nr] iq marks_frame
        markSeen_def plusOne_def choiceState_fields emptyProgress_def orZero_def)
  show ?thesis
    using grading_frame [of 1 choiceState sampleToLowerCase sampleNfd] h current_choiceState iq s
    by simp
qed

text \<open>
  C6. An accepted fill-in-blank submission is graded correct exactly when the normalized
  input equals the normalized \<open>correctAnswer\<close>, and the store is updated accordingly. With
  a platform that lowers the capitals of "Ha Noi" written with its diacritics (U+00E0,
  U+1ED9) and decomposes the two accented letters into base letters and combining marks,
  \<open>normalize\<close> maps both that string followed by two spaces and "ha noi" to "ha noi".
\<close>

theorem fill_in_graded_by_normalized_equality:
  "(current s = Some cur \<and> type_q cur = fill_in_blank \<and> trim (fillValue s) \<noteq> [] \<and>
    correctAnswer cur = Some a \<longrightarrow>
      isCorrect (checkFill toLowerCase nfd s) =
        Some (normalize_str toLowerCase nfd (fillValue s) = normalize_str toLowerCase nfd a) \<and>
      progress (checkFill toLowerCase nfd s) =
        (if normalize_str toLowerCase nfd (fillValue s) = normalize_str toLowerCase nfd a
         then markCorrect (id_q cur) else markWrong (id_q cur))
          (markSeen (id_q cur) (progress s))) \<and>
   (toLowerCase [0x48, 0xE0, 0x20, 0x4E, 0x1ED9, 0x69] = [0x68, 0xE0, 0x20, 0x6E, 0x1ED9, 0x69] \<and>
    nfd [0x68, 0xE0, 0x20, 0x6E, 0x1ED9, 0x69] =
      [0x68, 0x61, 0x0300, 0x20, 0x6E, 0x6F, 0x0323, 0x0302, 0x69] \<and>
    fixesPlain toLowerCase \<and> fixesPlain nfd \<longrightarrow>
      normalize_str toLowerCase nfd [0x48, 0xE0, 0x20, 0x4E, 0x1ED9, 0x69, 0x20, 0x20] =
        [0x68, 0x61, 0x20, 0x6E, 0x6F, 0x69] \<and>
      normalize_str toLowerCase nfd [0x68, 0x61, 0x20, 0x6E, 0x6F, 0x69] =
        [0x68, 0x61, 0x20, 0x6E, 0x6F, 0x69])"
proof (intro conjI impI)
  assume h: "current s = Some cur \<and> type_q cur = fill_in_blank \<and> trim (fillValue s) \<noteq> [] \<and>
    correctAnswer cur = Some a"
  then show "isCorrect (checkFill toLowerCase nfd s) =
        Some (normalize_str toLowerCase nfd (fillValue s) = normalize_str toLowerCase nfd a)"
    by (simp add: checkFill_def Let_def setProgress_def orEmptyString_def)
  from h show "progress (checkFill toLowerCase nfd s) =
        (if normalize_str toLowerCase nfd (fillValue s) = normalize_str toLowerCase nfd a
         then markCorrect (id_q cur) else markWrong (id_q cur))
          (markSeen (id_q cur) (progress s))"
    by (simp add: checkFill_def Let_def setProgress_def orEmptyString_def)
next
  assume p: "toLowerCase [0x48, 0xE0, 0x20, 0x4E, 0x1ED9, 0x69] = [0x68, 0xE0, 0x20, 0x6E, 0x1ED9, 0x69] \<and>
    nfd [0x68, 0xE0, 0x20, 0x6E, 0x1ED9, 0x69] =
      [0x68, 0x61, 0x0300, 0x20, 0x6E, 0x6F, 0x0323, 0x0302, 0x69] \<and>
    fixesPlain toLowerCase \<and> fixesPlain nfd"
  have t: "trim [0x48, 0xE0, 0x20, 0x4E, 0x1ED9, 0x69, 0x20, 0x20] =
             [0x48, 0xE0, 0x20, 0x4E, 0x1ED9, 0x69]"
    by (simp add: trim_def isWhiteSpace_def)
  show "normalize_str toLowerCase nfd [0x48, 0xE0, 0x20, 0x4E, 0x1ED9, 0x69, 0x20, 0x20] =
        [0x68, 0x61, 0x20, 0x6E, 0x6F, 0x69]"
    using p
    by (simp add: normalize_str_def t removeMarks_def replaceOther_def isCombiningMark_def
        isLowerAlnum_def)
       (simp add: trim_def isWhiteSpace_def)
  have c: "canonical [0x68, 0x61, 0x20, 0x6E, 0x6F, 0x69]"
    by (simp add: canonical_def plainChar_def isLowerAlnum_def isWhiteSpace_def)
  show "normalize_str toLowerCase nfd [0x68, 0x61, 0x20, 0x6E, 0x6F, 0x69] =
        [0x68, 0x61, 0x20, 0x6E, 0x6F, 0x69]"
    using p c by (intro canonical_fixed) simp_all
qed

theorem fill_in_graded_witness:
  "current fillState = Some (processQuestion String_int fillRaw) \<and>
   type_q (processQuestion String_int fillRaw) = fill_in_blank \<and>
   trim (fillValue fillState) \<noteq> [] \<and>
   correctAnswer (processQuestion String_int fillRaw) = Some [0x48, 0xE0, 0x20, 0x4E, 0x1ED9, 0x69] \<and>
   isCorrect (checkFill sampleToLowerCase sampleNfd fillState) = Some True \<and>
   normalize_str sampleToLowerCase sampleNfd [0x48, 0xE0, 0x20, 0x4E, 0x1ED9, 0x69, 0x20, 0x20] =
     [0x68, 0x61, 0x20, 0x6E, 0x6F, 0x69] \<and>
   normalize_str sampleToLowerCase sampleNfd [0x68, 0x61, 0x20, 0x6E, 0x6F, 0x69] =
     [0x68, 0x61, 0x20, 0x6E, 0x6F, 0x69]"
proof -
  have fv: "fillValue fillState = [0x68, 0x61, 0x20, 0x6E, 0x6F, 0x69]"
    by (simp add: fillState_def)
  have t: "trim (fillValue fillState) \<noteq> []" by (simp add: fv trim_def isWhiteSpace_def)
  have ty: "type_q (processQuestion String_int fillRaw) = fill_in_blank"
    by (simp add: fillRaw_processed)
  have ca: "correctAnswer (processQuestion String_int fillRaw) =
              Some [0x48, 0xE0, 0x20, 0x4E, 0x1ED9, 0x69]"
    by (simp add: fillRaw_processed)
  have lo: "sampleToLowerCase [0x48, 0xE0, 0x20, 0x4E, 0x1ED9, 0x69] =
              [0x68, 0xE0, 0x20, 0x6E, 0x1ED9, 0x69]"
    by (simp add: sampleToLowerCase_def)
  have nf: "sampleNfd [0x68, 0xE0, 0x20, 0x6E, 0x1ED9, 0x69] =
              [0x68, 0x61, 0x0300, 0x20, 0x6E, 0x6F, 0x0323, 0x0302, 0x69]"
    by (simp add: sampleNfd_def)
  note th = fill_in_graded_by_normalized_equality
    [of fillState "processQuestion String_int fillRaw" "[0x48, 0xE0, 0x20, 0x4E, 0x1ED9, 0x69]"
        sampleToLowerCase sampleNfd]
  have ic: "isCorrect (checkFill sampleToLowerCase sampleNfd fillState) = Some True"
    using th current_fillState ty t ca
    by (simp add: fv normalize_ha_noi_plain normalize_ha_noi_marked)
  have n: "normalize_str sampleToLowerCase sampleNfd
             [0x48, 0xE0, 0x20, 0x4E, 0x1ED9, 0x69, 0x20, 0x20] =
           [0x68, 0x61, 0x20, 0x6E, 0x6F, 0x69] \<and>
         normalize_str sampleToLowerCase sampleNfd [0x68, 0x61, 0x20, 0x6E, 0x6F, 0x69] =
           [0x68, 0x61, 0x20, 0x6E, 0x6F, 0x69]"
    using th lo nf sampleToLowerCase_fixes sampleNfd_fixes by blast
  show ?thesis using current_fillState ty t ca ic n by (intro conjI) simp_all
qed

end
